theory Spec2Isabelle
  imports Main "HOL-Library.Monad_Syntax"
begin

section \<open>Tokens, tree nodes and the symbol table\<close>

text \<open>
  The token kinds that \<^verbatim>\<open>Parser.cpp\<close> names. The enumeration itself is declared in
  \<^verbatim>\<open>Token.h\<close>; every enumerator the parser never mentions is covered by \<open>OTHER\<close>.
\<close>

datatype TokenType =
    PROGRAM | BEGIN | END | REPEAT | UNTIL | WRITE | WRITELN | WHILE | DO | NOT
  | COLON | COLON_EQUALS | SEMICOLON | PLUS | MINUS | STAR | SLASH | LPAREN | RPAREN
  | EQUALS | NOT_EQUALS | LESS_THAN | LESS_EQUALS | GREATER_THAN | GREATER_EQUALS
  | IDENTIFIER | INTEGER | REAL | CHARACTER | STRING | END_OF_FILE | OTHER nat

text \<open>
  A token. The payload type of \<^verbatim>\<open>value\<close> (\<^verbatim>\<open>Object\<close>) is declared outside the parser,
  which only copies it into nodes, so it is the type parameter \<open>'v\<close>; \<open>None\<close> is a token
  without a value. Field names carry a \<open>t\<close> because Token, Node and Parser share the
  names \<^verbatim>\<open>lineNumber\<close>, \<^verbatim>\<open>text\<close> and \<^verbatim>\<open>value\<close>.
\<close>

record 'v Token =
  ttype :: TokenType
  tlineNumber :: int
  ttext :: string
  tvalue :: "'v option"

datatype NodeType =
    PROGRAM | COMPOUND | ASSIGN | LOOP | TEST | WRITE | WRITELN
  | ADD | SUBTRACT | MULTIPLY | DIVIDE | EQ | LT | LE | GT | GE | NE | NOT
  | VARIABLE | INTEGER_CONSTANT | REAL_CONSTANT | STRING_CONSTANT

text \<open>A symbol table entry is an opaque handle; here it is the name it was entered under.\<close>

datatype SymtabEntry = SymtabEntry (name: string)

type_synonym Symtab = "SymtabEntry list"

text \<open>
  A tree node. A child is a \<^verbatim>\<open>Node *\<close> that may be null (\<^verbatim>\<open>adopt\<close> is called with
  the null result of \<^verbatim>\<open>parseFactor\<close> and of \<^verbatim>\<open>parseStatement\<close>), hence the
  \<open>option\<close> in the list of children; \<open>nentry = None\<close> is the null symbol reference.
\<close>

datatype 'v Node = Node
  (ntype: NodeType)
  (nlineNumber: int)
  (ntext: string)
  (nentry: "SymtabEntry option")
  (nvalue: "'v option")
  (children: "'v Node option list")

text \<open>Modelled from the spec: \<^verbatim>\<open>new Node(type)\<close>, a node of the kind with nothing else set.\<close>

definition newNode :: "NodeType \<Rightarrow> 'v Node" where
  "newNode t = Node t 0 [] None None []"

text \<open>Modelled from the spec: \<^verbatim>\<open>adopt\<close> appends a child to the parent's ordered child list.\<close>

fun adopt :: "'v Node \<Rightarrow> 'v Node option \<Rightarrow> 'v Node" where
  "adopt (Node t l x e v cs) child = Node t l x e v (cs @ [child])"

fun setLineNumber :: "int \<Rightarrow> 'v Node \<Rightarrow> 'v Node" where
  "setLineNumber l' (Node t l x e v cs) = Node t l' x e v cs"

fun setText :: "string \<Rightarrow> 'v Node \<Rightarrow> 'v Node" where
  "setText x' (Node t l x e v cs) = Node t l x' e v cs"

fun setEntry :: "SymtabEntry option \<Rightarrow> 'v Node \<Rightarrow> 'v Node" where
  "setEntry e' (Node t l x e v cs) = Node t l x e' v cs"

fun setValue :: "'v option \<Rightarrow> 'v Node \<Rightarrow> 'v Node" where
  "setValue v' (Node t l x e v cs) = Node t l x e v' cs"

text \<open>Modelled from the spec: \<^verbatim>\<open>toLowerCase\<close>, ASCII letters folded to lower case.\<close>

definition toLowerChar :: "char \<Rightarrow> char" where
  "toLowerChar c =
     (case map_of (zip ''ABCDEFGHIJKLMNOPQRSTUVWXYZ'' ''abcdefghijklmnopqrstuvwxyz'') c of
        Some l \<Rightarrow> l
      | None \<Rightarrow> c)"

definition toLowerCase :: "string \<Rightarrow> string" where
  "toLowerCase s = map toLowerChar s"

text \<open>
  Modelled from the spec: the symbol table, of which only \<^verbatim>\<open>lookup\<close> and \<^verbatim>\<open>enter\<close>
  are used. \<^verbatim>\<open>lookup\<close> is case-insensitive and answers an entry or nothing;
  \<^verbatim>\<open>enter\<close> keeps the original casing and answers the new entry.
\<close>

definition lookup :: "string \<Rightarrow> Symtab \<Rightarrow> SymtabEntry option" where
  "lookup key st = find (\<lambda>e. toLowerCase (name e) = toLowerCase key) st"

definition enter :: "string \<Rightarrow> Symtab \<Rightarrow> SymtabEntry \<times> Symtab" where
  "enter nm st = (SymtabEntry nm, st @ [SymtabEntry nm])"

section \<open>The parser's state\<close>

text \<open>What \<^verbatim>\<open>printf\<close> writes: the kind of error, the line, the message, the token text.\<close>

datatype Diagnostic =
    SyntaxErrorAt int string string
  | SemanticErrorAt int string string

text \<open>
  The fields of the \<^verbatim>\<open>Parser\<close> object that the productions read and write. The scanner
  is the list of tokens it has yet to deliver; \<open>printed\<close> is the text printed so far.
\<close>

record 'v Parser =
  currentToken :: "'v Token"
  scanner :: "'v Token list"
  symtab :: Symtab
  lineNumber :: int
  errorCount :: int
  printed :: "Diagnostic list"

definition eofToken :: "'v Token" where
  "eofToken = \<lparr>ttype = END_OF_FILE, tlineNumber = 0, ttext = [], tvalue = None\<rparr>"

text \<open>
  Modelled from the spec: \<^verbatim>\<open>currentToken = scanner->nextToken()\<close>. The scanner delivers
  its tokens in order and the end-of-input sentinel once they are exhausted.
\<close>

definition nextToken :: "'v Parser \<Rightarrow> 'v Parser" where
  "nextToken p =
     (case scanner p of
        [] \<Rightarrow> p\<lparr>currentToken := eofToken\<rparr>
      | t # ts \<Rightarrow> p\<lparr>currentToken := t, scanner := ts\<rparr>)"

section \<open>Token classification tables\<close>

definition statementStarters :: "TokenType set" where
  "statementStarters =
     {BEGIN, IDENTIFIER, REPEAT, WHILE, TokenType.WRITE, TokenType.WRITELN}"

definition statementFollowers :: "TokenType set" where
  "statementFollowers = {SEMICOLON, END, UNTIL, END_OF_FILE, DO}"

definition relationalOperators :: "TokenType set" where
  "relationalOperators =
     {EQUALS, LESS_THAN, LESS_EQUALS, GREATER_THAN, GREATER_EQUALS, NOT_EQUALS}"

definition simpleExpressionOperators :: "TokenType set" where
  "simpleExpressionOperators = {PLUS, MINUS}"

definition termOperators :: "TokenType set" where
  "termOperators = {STAR, SLASH}"

definition factorOperators :: "TokenType set" where
  "factorOperators = {TokenType.NOT}"

section \<open>Error reporting and recovery\<close>

text \<open>
  The loop of \<^verbatim>\<open>syntaxError\<close>: read tokens until the current one is a statement
  follower. It ends because the scanner's list shrinks and the sentinel is a follower.
\<close>

function skipToFollower :: "'v Parser \<Rightarrow> 'v Parser" where
  "skipToFollower p =
     (if ttype (currentToken p) \<notin> statementFollowers
      then skipToFollower (nextToken p) else p)"
  by pat_completeness auto
termination
  by (relation "measure (\<lambda>p. length (scanner p) +
        (if ttype (currentToken p) = END_OF_FILE then 0 else 1))")
     (auto simp: nextToken_def eofToken_def statementFollowers_def split: list.splits)

declare skipToFollower.simps [simp del]

definition syntaxError :: "string \<Rightarrow> 'v Parser \<Rightarrow> 'v Parser" where
  "syntaxError message p =
     skipToFollower
       (p\<lparr>printed := printed p @ [SyntaxErrorAt (lineNumber p) message (ttext (currentToken p))],
          errorCount := errorCount p + 1\<rparr>)"

definition semanticError :: "string \<Rightarrow> 'v Parser \<Rightarrow> 'v Parser" where
  "semanticError message p =
     p\<lparr>printed := printed p @ [SemanticErrorAt (lineNumber p) message (ttext (currentToken p))],
       errorCount := errorCount p + 1\<rparr>"

section \<open>Leaves of the expression grammar\<close>

definition parseVariable :: "'v Parser \<Rightarrow> 'v Node \<times> 'v Parser" where
  "parseVariable p =
     (let variableName = ttext (currentToken p);
          variableId = lookup (toLowerCase variableName) (symtab p);
          p1 = (if variableId = None then semanticError ''Undeclared identifier'' p else p);
          node = setEntry variableId (setText variableName (newNode VARIABLE))
      in (node, nextToken p1))"

definition parseIntegerConstant :: "'v Parser \<Rightarrow> 'v Node \<times> 'v Parser" where
  "parseIntegerConstant p =
     (setValue (tvalue (currentToken p)) (newNode INTEGER_CONSTANT), nextToken p)"

definition parseRealConstant :: "'v Parser \<Rightarrow> 'v Node \<times> 'v Parser" where
  "parseRealConstant p =
     (setValue (tvalue (currentToken p)) (newNode REAL_CONSTANT), nextToken p)"

definition parseStringConstant :: "'v Parser \<Rightarrow> 'v Node \<times> 'v Parser" where
  "parseStringConstant p =
     (setValue (tvalue (currentToken p)) (newNode STRING_CONSTANT), nextToken p)"

section \<open>Expressions\<close>

text \<open>
  The node that \<^verbatim>\<open>parseExpression\<close> creates for a relational operator token: the
  chain of conditional expressions of the source, with its null fallback.
\<close>

definition relationalNode :: "TokenType \<Rightarrow> 'v Node option" where
  "relationalNode tokenType =
     (if tokenType = EQUALS then Some (newNode EQ)
      else if tokenType = LESS_THAN then Some (newNode LT)
      else if tokenType = LESS_EQUALS then Some (newNode LE)
      else if tokenType = GREATER_THAN then Some (newNode GT)
      else if tokenType = GREATER_EQUALS then Some (newNode GE)
      else if tokenType = NOT_EQUALS then Some (newNode NE)
      else None)"

text \<open>
  The productions call each other through parentheses, so they are defined together.
  The first argument bounds the depth of calls and loop iterations: \<open>None\<close> means that
  the bound was reached before the production returned. The two \<^verbatim>\<open>while\<close> loops
  are \<open>simpleExpressionLoop\<close> and \<open>termLoop\<close>, which carry the root node built so far.
\<close>

fun parseExpression :: "nat \<Rightarrow> 'v Parser \<Rightarrow> ('v Node option \<times> 'v Parser) option"
and parseSimpleExpression :: "nat \<Rightarrow> 'v Parser \<Rightarrow> ('v Node option \<times> 'v Parser) option"
and simpleExpressionLoop ::
      "nat \<Rightarrow> 'v Node option \<Rightarrow> 'v Parser \<Rightarrow> ('v Node option \<times> 'v Parser) option"
and parseTerm :: "nat \<Rightarrow> 'v Parser \<Rightarrow> ('v Node option \<times> 'v Parser) option"
and termLoop ::
      "nat \<Rightarrow> 'v Node option \<Rightarrow> 'v Parser \<Rightarrow> ('v Node option \<times> 'v Parser) option"
and parseFactor :: "nat \<Rightarrow> 'v Parser \<Rightarrow> ('v Node option \<times> 'v Parser) option"
where
  "parseExpression 0 p = None"
| "parseExpression (Suc n) p =
     do {
       (exprNode, p1) \<leftarrow> parseSimpleExpression n p;
       if ttype (currentToken p1) \<in> relationalOperators
       then case relationalNode (ttype (currentToken p1)) of
              None \<Rightarrow> Some (exprNode, nextToken p1)
            | Some opNode \<Rightarrow>
                do {
                  (rhs, p2) \<leftarrow> parseSimpleExpression n (nextToken p1);
                  Some (Some (adopt (adopt opNode exprNode) rhs), p2)
                }
       else Some (exprNode, p1)
     }"
| "parseSimpleExpression 0 p = None"
| "parseSimpleExpression (Suc n) p =
     do {
       (simpExprNode, p1) \<leftarrow> parseTerm n p;
       simpleExpressionLoop n simpExprNode p1
     }"
| "simpleExpressionLoop 0 simpExprNode p = None"
| "simpleExpressionLoop (Suc n) simpExprNode p =
     (if ttype (currentToken p) \<in> simpleExpressionOperators
      then do {
        let opNode = (if ttype (currentToken p) = PLUS then newNode ADD else newNode SUBTRACT);
        (term, p1) \<leftarrow> parseTerm n (nextToken p);
        simpleExpressionLoop n (Some (adopt (adopt opNode simpExprNode) term)) p1
      }
      else Some (simpExprNode, p))"
| "parseTerm 0 p = None"
| "parseTerm (Suc n) p =
     do {
       (termNode, p1) \<leftarrow> parseFactor n p;
       termLoop n termNode p1
     }"
| "termLoop 0 termNode p = None"
| "termLoop (Suc n) termNode p =
     (if ttype (currentToken p) \<in> termOperators
      then do {
        let opNode = (if ttype (currentToken p) = STAR then newNode MULTIPLY else newNode DIVIDE);
        (factor, p1) \<leftarrow> parseFactor n (nextToken p);
        termLoop n (Some (adopt (adopt opNode termNode) factor)) p1
      }
      else Some (termNode, p))"
| "parseFactor 0 p = None"
| "parseFactor (Suc n) p =
     (if ttype (currentToken p) = IDENTIFIER
      then (let (node, p1) = parseVariable p in Some (Some node, p1))
      else if ttype (currentToken p) = INTEGER
      then (let (node, p1) = parseIntegerConstant p in Some (Some node, p1))
      else if ttype (currentToken p) = REAL
      then (let (node, p1) = parseRealConstant p in Some (Some node, p1))
      else if ttype (currentToken p) = LPAREN
      then do {
        (exprNode, p1) \<leftarrow> parseExpression n (nextToken p);
        if ttype (currentToken p1) = RPAREN
        then Some (exprNode, nextToken p1)
        else Some (exprNode, syntaxError ''Expecting )'' p1)
      }
      else Some (None, syntaxError ''Unexpected token'' p))"

section \<open>Statements\<close>

text \<open>
  The first half of \<^verbatim>\<open>parseAssignmentStatement\<close> (lines 128 to 138): the target is
  looked up, entered if the lookup misses, and consumed. It answers the VARIABLE node.
\<close>

definition assignmentTarget :: "'v Parser \<Rightarrow> 'v Node \<times> 'v Parser" where
  "assignmentTarget p =
     (let variableName = ttext (currentToken p);
          (variableId, p1) =
            (case lookup (toLowerCase variableName) (symtab p) of
               None \<Rightarrow> (let (e, st) = enter variableName (symtab p) in (Some e, p\<lparr>symtab := st\<rparr>))
             | Some e \<Rightarrow> (Some e, p));
          lhsNode = setEntry variableId (setText variableName (newNode VARIABLE))
      in (lhsNode, nextToken p1))"

definition parseAssignmentStatement :: "nat \<Rightarrow> 'v Parser \<Rightarrow> ('v Node \<times> 'v Parser) option" where
  "parseAssignmentStatement n p =
     (let (lhsNode, p2) = assignmentTarget p;
          assignmentNode = adopt (newNode ASSIGN) (Some lhsNode);
          p3 = (if ttype (currentToken p2) = COLON_EQUALS then nextToken p2
                else syntaxError ''Missing :='' p2)
      in do {
        (rhsNode, p4) \<leftarrow> parseExpression n p3;
        Some (adopt assignmentNode rhsNode, p4)
      })"

text \<open>
  \<^verbatim>\<open>parseWriteArguments\<close> in its three steps: the argument proper (lines 313 to 326),
  which also answers \<^verbatim>\<open>hasArgument\<close>; the count of decimal places after a field width
  (lines 340 to 350); the field width (lines 331 to 353).
\<close>

definition writeArgument :: "'v Node \<Rightarrow> 'v Parser \<Rightarrow> 'v Node \<times> bool \<times> 'v Parser" where
  "writeArgument node p =
     (if ttype (currentToken p) = IDENTIFIER
      then (let (v, q) = parseVariable p in (adopt node (Some v), True, q))
      else if ttype (currentToken p) = CHARACTER \<or> ttype (currentToken p) = STRING
      then (let (s, q) = parseStringConstant p in (adopt node (Some s), True, q))
      else (node, False, syntaxError ''Invalid WRITE or WRITELN statement'' p))"

definition writeDecimalPlaces :: "'v Node \<Rightarrow> 'v Parser \<Rightarrow> 'v Node \<times> 'v Parser" where
  "writeDecimalPlaces node p =
     (if ttype (currentToken p) = COLON
      then (let q = nextToken p in
            if ttype (currentToken q) = INTEGER
            then (let (d, q1) = parseIntegerConstant q in (adopt node (Some d), q1))
            else (node, syntaxError ''Invalid count of decimal places'' q))
      else (node, p))"

definition writeFieldWidth :: "'v Node \<Rightarrow> 'v Parser \<Rightarrow> 'v Node \<times> 'v Parser" where
  "writeFieldWidth node p =
     (if ttype (currentToken p) = COLON
      then (let q = nextToken p in
            if ttype (currentToken q) = INTEGER
            then (let (w, q1) = parseIntegerConstant q
                  in writeDecimalPlaces (adopt node (Some w)) q1)
            else (node, syntaxError ''Invalid field width'' q))
      else (node, p))"

definition parseWriteArguments :: "'v Node \<Rightarrow> 'v Parser \<Rightarrow> 'v Node \<times> 'v Parser" where
  "parseWriteArguments node p =
     (let p1 = (if ttype (currentToken p) = LPAREN then nextToken p
                else syntaxError ''Missing left parenthesis'' p);
          (node1, hasArgument, p2) = writeArgument node p1;
          (node2, p3) = (if hasArgument then writeFieldWidth node1 p2 else (node1, p2))
      in if ttype (currentToken p3) = RPAREN then (node2, nextToken p3)
         else (node2, syntaxError ''Missing right parenthesis'' p3))"

definition parseWriteStatement :: "'v Parser \<Rightarrow> 'v Node \<times> 'v Parser" where
  "parseWriteStatement p =
     (let (writeNode, p1) = parseWriteArguments (newNode NodeType.WRITE) (nextToken p)
      in if length (children writeNode) = 0
         then (writeNode, syntaxError ''Invalid WRITE statement'' p1)
         else (writeNode, p1))"

definition parseWritelnStatement :: "'v Parser \<Rightarrow> 'v Node \<times> 'v Parser" where
  "parseWritelnStatement p =
     (let writelnNode = newNode NodeType.WRITELN;
          p1 = nextToken p
      in if ttype (currentToken p1) = LPAREN then parseWriteArguments writelnNode p1
         else (writelnNode, p1))"

text \<open>
  The inner loop of \<^verbatim>\<open>parseStatementList\<close> that consumes a run of semicolons.
\<close>

function skipSemicolons :: "'v Parser \<Rightarrow> 'v Parser" where
  "skipSemicolons p =
     (if ttype (currentToken p) = SEMICOLON then skipSemicolons (nextToken p) else p)"
  by pat_completeness auto
termination
  by (relation "measure (\<lambda>p. length (scanner p) +
        (if ttype (currentToken p) = END_OF_FILE then 0 else 1))")
     (auto simp: nextToken_def eofToken_def split: list.splits)

declare skipSemicolons.simps [simp del]

text \<open>
  The statement productions, defined together. As for expressions, the first argument
  bounds the depth of calls and the iterations of the loop of \<^verbatim>\<open>parseStatementList\<close>,
  and \<open>None\<close> means that the bound was reached. The \<^verbatim>\<open>switch\<close> of
  \<^verbatim>\<open>parseStatement\<close> is the chain of tests on the token kind.
\<close>

fun parseStatement :: "nat \<Rightarrow> 'v Parser \<Rightarrow> ('v Node option \<times> 'v Parser) option"
and parseCompoundStatement :: "nat \<Rightarrow> 'v Parser \<Rightarrow> ('v Node \<times> 'v Parser) option"
and parseStatementList ::
      "nat \<Rightarrow> 'v Node \<Rightarrow> TokenType \<Rightarrow> 'v Parser \<Rightarrow> ('v Node \<times> 'v Parser) option"
and parseRepeatStatement :: "nat \<Rightarrow> 'v Parser \<Rightarrow> ('v Node \<times> 'v Parser) option"
and parseWhileStatement :: "nat \<Rightarrow> 'v Parser \<Rightarrow> ('v Node \<times> 'v Parser) option"
where
  "parseStatement 0 p = None"
| "parseStatement (Suc n) p =
     (let savedLineNumber = tlineNumber (currentToken p);
          p0 = p\<lparr>lineNumber := savedLineNumber\<rparr>;
          k = ttype (currentToken p0)
      in do {
        (stmtNode, p1) \<leftarrow>
          (if k = IDENTIFIER
           then do { (node, q) \<leftarrow> parseAssignmentStatement n p0; Some (Some node, q) }
           else if k = BEGIN
           then do { (node, q) \<leftarrow> parseCompoundStatement n p0; Some (Some node, q) }
           else if k = REPEAT
           then do { (node, q) \<leftarrow> parseRepeatStatement n p0; Some (Some node, q) }
           else if k = TokenType.WRITE
           then (let (node, q) = parseWriteStatement p0 in Some (Some node, q))
           else if k = TokenType.WRITELN
           then (let (node, q) = parseWritelnStatement p0 in Some (Some node, q))
           else if k = WHILE
           then do { (node, q) \<leftarrow> parseWhileStatement n p0; Some (Some node, q) }
           else if k = SEMICOLON
           then Some (None, p0)
           else Some (None, syntaxError ''Unexpected token'' p0));
        Some (map_option (setLineNumber savedLineNumber) stmtNode, p1)
      })"
| "parseCompoundStatement 0 p = None"
| "parseCompoundStatement (Suc n) p =
     (let compoundNode = setLineNumber (tlineNumber (currentToken p)) (newNode COMPOUND)
      in do {
        (compoundNode, p1) \<leftarrow> parseStatementList n compoundNode END (nextToken p);
        if ttype (currentToken p1) = END
        then Some (compoundNode, nextToken p1)
        else Some (compoundNode, syntaxError ''Expecting END'' p1)
      })"
| "parseStatementList 0 parentNode terminalType p = None"
| "parseStatementList (Suc n) parentNode terminalType p =
     (if ttype (currentToken p) \<noteq> terminalType \<and> ttype (currentToken p) \<noteq> END_OF_FILE
      then do {
        (stmtNode, p1) \<leftarrow> parseStatement n p;
        let parentNode = (if stmtNode \<noteq> None then adopt parentNode stmtNode else parentNode);
        let p2 = (if ttype (currentToken p1) = SEMICOLON then skipSemicolons p1
                  else if ttype (currentToken p1) \<in> statementStarters
                  then syntaxError ''Missing ;'' p1
                  else p1);
        parseStatementList n parentNode terminalType p2
      }
      else Some (parentNode, p))"
| "parseRepeatStatement 0 p = None"
| "parseRepeatStatement (Suc n) p =
     do {
       (loopNode, p1) \<leftarrow> parseStatementList n (newNode LOOP) UNTIL (nextToken p);
       if ttype (currentToken p1) = UNTIL
       then do {
         let p2 = p1\<lparr>lineNumber := tlineNumber (currentToken p1)\<rparr>;
         let testNode = setLineNumber (lineNumber p2) (newNode TEST);
         (exprNode, p3) \<leftarrow> parseExpression n (nextToken p2);
         Some (adopt loopNode (Some (adopt testNode exprNode)), p3)
       }
       else Some (loopNode, syntaxError ''Expecting UNTIL'' p1)
     }"
| "parseWhileStatement 0 p = None"
| "parseWhileStatement (Suc n) p =
     do {
       (exprNode, p1) \<leftarrow> parseExpression n (nextToken p);
       let notNode = adopt (newNode NodeType.NOT) exprNode;
       let testNode = adopt (newNode TEST) (Some notNode);
       let loopNode = adopt (newNode LOOP) (Some testNode);
       if ttype (currentToken p1) = DO
       then do {
         (stmtNode, p2) \<leftarrow> parseStatement n (nextToken p1);
         Some (adopt loopNode stmtNode, p2)
       }
       else Some (loopNode, syntaxError ''Expecting DO'' p1)
     }"

text \<open>
  The entry point. It reads the first token itself, so the current token of the state
  it is given is never looked at.
\<close>

definition parseProgram :: "nat \<Rightarrow> 'v Parser \<Rightarrow> ('v Node \<times> 'v Parser) option" where
  "parseProgram n p =
     (let programNode = newNode NodeType.PROGRAM;
          p1 = nextToken p;
          p2 = (if ttype (currentToken p1) = TokenType.PROGRAM then nextToken p1
                else syntaxError ''Expecting PROGRAM'' p1);
          (programNode, p3) =
            (if ttype (currentToken p2) = IDENTIFIER
             then (let programName = ttext (currentToken p2);
                       (e, st) = enter programName (symtab p2)
                   in (setText programName programNode, nextToken (p2\<lparr>symtab := st\<rparr>)))
             else (programNode, syntaxError ''Expecting program name'' p2));
          p4 = (if ttype (currentToken p3) = SEMICOLON then nextToken p3
                else syntaxError ''Missing ;'' p3);
          p5 = (if ttype (currentToken p4) \<noteq> BEGIN then syntaxError ''Expecting BEGIN'' p4
                else p4)
      in do {
        (compoundNode, p6) \<leftarrow> parseCompoundStatement n p5;
        let p7 = (if ttype (currentToken p6) = SEMICOLON then syntaxError ''Expecting .'' p6
                  else p6);
        Some (adopt programNode (Some compoundNode), p7)
      })"

text \<open>
  A parser object on a token sequence and a symbol table, before any token is read
  (the current token is a placeholder: the field is unset until the first read).
\<close>

definition newParser :: "'v Token list \<Rightarrow> Symtab \<Rightarrow> 'v Parser" where
  "newParser ts st =
     \<lparr>currentToken = eofToken, scanner = ts, symtab = st, lineNumber = 1,
      errorCount = 0, printed = []\<rparr>"

text \<open>The state in which a production is entered: the first token has been read.\<close>

definition startParser :: "'v Token list \<Rightarrow> Symtab \<Rightarrow> 'v Parser" where
  "startParser ts st = nextToken (newParser ts st)"

section \<open>Auxiliary notions and the inputs of the examples\<close>

text \<open>
  The error count does not go down between two states, and goes up when the production
  answered the null pointer.
\<close>

definition errorsGrow :: "'v Parser \<Rightarrow> 'v Node option \<Rightarrow> 'v Parser \<Rightarrow> bool" where
  "errorsGrow p e p' \<longleftrightarrow>
     errorCount p \<le> errorCount p' \<and> (e = None \<longrightarrow> errorCount p < errorCount p')"

text \<open>Tokens on line 1, with the payload type \<open>int\<close>.\<close>

definition tok :: "TokenType \<Rightarrow> string \<Rightarrow> int Token" where
  "tok k s = \<lparr>ttype = k, tlineNumber = 1, ttext = s, tvalue = None\<rparr>"

definition ident :: "string \<Rightarrow> int Token" where
  "ident s = tok IDENTIFIER s"

definition intTok :: "string \<Rightarrow> int \<Rightarrow> int Token" where
  "intTok s v = \<lparr>ttype = INTEGER, tlineNumber = 1, ttext = s, tvalue = Some v\<rparr>"

text \<open>\<^verbatim>\<open>PROGRAM p ; BEGIN DO END\<close>: a \<^verbatim>\<open>DO\<close> where a statement is expected.\<close>

definition strayDoProgram :: "int Token list" where
  "strayDoProgram =
     [tok TokenType.PROGRAM ''PROGRAM'', ident ''p'', tok SEMICOLON '';'',
      tok BEGIN ''BEGIN'', tok DO ''DO'', tok END ''END'']"

text \<open>The state of the parser on that program once \<^verbatim>\<open>BEGIN\<close> is consumed.\<close>

definition strayDoState :: "int Parser" where
  "strayDoState =
     \<lparr>currentToken = tok DO ''DO'', scanner = [tok END ''END''],
      symtab = [SymtabEntry ''p''], lineNumber = 1, errorCount = 0, printed = []\<rparr>"

text \<open>The kinds of the children of a node, in order (\<open>None\<close> for a null child).\<close>

definition childKinds :: "'v Node \<Rightarrow> NodeType option list" where
  "childKinds node = map (map_option ntype) (children node)"

text \<open>The node kinds that \<^verbatim>\<open>parseExpression\<close> creates for a relational operator.\<close>

definition isRelational :: "NodeType \<Rightarrow> bool" where
  "isRelational t \<longleftrightarrow> t \<in> {EQ, LT, LE, GT, GE, NE}"

text \<open>The node kinds of statements.\<close>

definition statementNodeTypes :: "NodeType set" where
  "statementNodeTypes = {ASSIGN, COMPOUND, LOOP, NodeType.WRITE, NodeType.WRITELN}"

text \<open>\<open>node'\<close> is \<open>node\<close> with statement nodes appended to its children.\<close>

definition statementsAdopted :: "'v Node \<Rightarrow> 'v Node \<Rightarrow> bool" where
  "statementsAdopted node node' \<longleftrightarrow>
     (\<exists>new. node' = Node (ntype node) (nlineNumber node) (ntext node) (nentry node)
                      (nvalue node) (children node @ new) \<and>
            list_all (\<lambda>c. case c of None \<Rightarrow> False | Some s \<Rightarrow> ntype s \<in> statementNodeTypes) new)"

text \<open>No node of the tree is relational.\<close>

fun noRelational :: "'v Node \<Rightarrow> bool" where
  "noRelational (Node t l x e v cs) =
     (\<not> isRelational t \<and>
      list_all (\<lambda>c. case c of None \<Rightarrow> True | Some k \<Rightarrow> noRelational k) cs)"

text \<open>Every relational node of the tree has exactly two children.\<close>

fun relationalBinary :: "'v Node \<Rightarrow> bool" where
  "relationalBinary (Node t l x e v cs) =
     ((isRelational t \<longrightarrow> length cs = 2) \<and>
      list_all (\<lambda>c. case c of None \<Rightarrow> True | Some k \<Rightarrow> relationalBinary k) cs)"

text \<open>No left parenthesis is left in the input.\<close>

definition noLParen :: "'v Parser \<Rightarrow> bool" where
  "noLParen p \<longleftrightarrow>
     ttype (currentToken p) \<noteq> LPAREN \<and> list_all (\<lambda>t. ttype t \<noteq> LPAREN) (scanner p)"

text \<open>The tokens ahead: the current one and those the scanner has yet to deliver.\<close>

definition tokensAhead :: "'v Parser \<Rightarrow> 'v Token list" where
  "tokensAhead p = currentToken p # scanner p"

text \<open>The parser with the tokens ahead replaced (the sentinel if there is none).\<close>

definition setTokens :: "'v Token list \<Rightarrow> 'v Parser \<Rightarrow> 'v Parser" where
  "setTokens ts p =
     (case ts of
        [] \<Rightarrow> p\<lparr>currentToken := eofToken, scanner := []\<rparr>
      | t # r \<Rightarrow> p\<lparr>currentToken := t, scanner := r\<rparr>)"

text \<open>
  What the grammar says of operator chains, over integer literals: a term is a literal
  followed by pairs of a \<^verbatim>\<open>*\<close> or \<^verbatim>\<open>/\<close> token and a literal, a simple expression is a
  term followed by pairs of a \<^verbatim>\<open>+\<close> or \<^verbatim>\<open>-\<close> token and a term; each chain is folded
  from the left into binary nodes.
\<close>

type_synonym 'v termChain = "'v Token \<times> ('v Token \<times> 'v Token) list"

type_synonym 'v simpleChain = "'v termChain \<times> ('v Token \<times> 'v termChain) list"

definition literalNode :: "'v Token \<Rightarrow> 'v Node" where
  "literalNode t = Node INTEGER_CONSTANT 0 [] None (tvalue t) []"

definition binaryNode :: "NodeType \<Rightarrow> 'v Node option \<Rightarrow> 'v Node option \<Rightarrow> 'v Node option" where
  "binaryNode k l r = Some (Node k 0 [] None None [l, r])"

definition termTokens :: "'v termChain \<Rightarrow> 'v Token list" where
  "termTokens c = fst c # concat (map (\<lambda>(opTok, f). [opTok, f]) (snd c))"

definition termTree :: "'v termChain \<Rightarrow> 'v Node option" where
  "termTree c =
     foldl (\<lambda>acc (opTok, f).
              binaryNode (if ttype opTok = STAR then MULTIPLY else DIVIDE) acc
                (Some (literalNode f)))
       (Some (literalNode (fst c))) (snd c)"

definition termChainOk :: "'v termChain \<Rightarrow> bool" where
  "termChainOk c \<longleftrightarrow>
     ttype (fst c) = INTEGER \<and>
     list_all (\<lambda>(opTok, f). ttype opTok \<in> termOperators \<and> ttype f = INTEGER) (snd c)"

definition simpleTokens :: "'v simpleChain \<Rightarrow> 'v Token list" where
  "simpleTokens c =
     termTokens (fst c) @ concat (map (\<lambda>(opTok, t). opTok # termTokens t) (snd c))"

definition simpleTree :: "'v simpleChain \<Rightarrow> 'v Node option" where
  "simpleTree c =
     foldl (\<lambda>acc (opTok, t).
              binaryNode (if ttype opTok = PLUS then ADD else SUBTRACT) acc (termTree t))
       (termTree (fst c)) (snd c)"

definition simpleChainOk :: "'v simpleChain \<Rightarrow> bool" where
  "simpleChainOk c \<longleftrightarrow>
     termChainOk (fst c) \<and>
     list_all (\<lambda>(opTok, t). ttype opTok \<in> simpleExpressionOperators \<and> termChainOk t) (snd c)"

text \<open>The token after a chain is no operator of the chain's levels.\<close>

definition endsChain :: "TokenType set \<Rightarrow> 'v Token list \<Rightarrow> bool" where
  "endsChain ops rest \<longleftrightarrow> (case rest of [] \<Rightarrow> True | t # r \<Rightarrow> ttype t \<notin> ops)"

text \<open>\<^verbatim>\<open>BEGIN a := 1 a := 2 END\<close>\<close>

definition missingSeparatorTokens :: "int Token list" where
  "missingSeparatorTokens =
     [tok BEGIN ''BEGIN'', ident ''a'', tok COLON_EQUALS '':='', intTok ''1'' 1,
      ident ''a'', tok COLON_EQUALS '':='', intTok ''2'' 2, tok END ''END'']"

text \<open>\<^verbatim>\<open>x := 1 + 2 * 3\<close>\<close>

definition precedenceTokens :: "int Token list" where
  "precedenceTokens =
     [ident ''x'', tok COLON_EQUALS '':='', intTok ''1'' 1, tok PLUS ''+'', intTok ''2'' 2,
      tok STAR ''*'', intTok ''3'' 3]"

text \<open>\<^verbatim>\<open>a = b = c\<close>, to be parsed with the three names declared.\<close>

definition chainedComparisonTokens :: "int Token list" where
  "chainedComparisonTokens =
     [ident ''a'', tok EQUALS ''='', ident ''b'', tok EQUALS ''='', ident ''c'']"

text \<open>\<^verbatim>\<open>BEGIN y := z END\<close>\<close>

definition undeclaredTokens :: "int Token list" where
  "undeclaredTokens =
     [tok BEGIN ''BEGIN'', ident ''y'', tok COLON_EQUALS '':='', ident ''z'', tok END ''END'']"

text \<open>\<^verbatim>\<open>REPEAT x := x + 1 UNTIL x = 10\<close> and \<^verbatim>\<open>WHILE x < 10 DO x := x + 1\<close>\<close>

definition repeatTokens :: "int Token list" where
  "repeatTokens =
     [tok REPEAT ''REPEAT'', ident ''x'', tok COLON_EQUALS '':='', ident ''x'', tok PLUS ''+'',
      intTok ''1'' 1, tok UNTIL ''UNTIL'', ident ''x'', tok EQUALS ''='', intTok ''10'' 10]"

definition whileTokens :: "int Token list" where
  "whileTokens =
     [tok WHILE ''WHILE'', ident ''x'', tok LESS_THAN ''<'', intTok ''10'' 10, tok DO ''DO'',
      ident ''x'', tok COLON_EQUALS '':='', ident ''x'', tok PLUS ''+'', intTok ''1'' 1]"

text \<open>\<^verbatim>\<open>WHILE x < 10 DO ;\<close>: a loop whose body is the empty statement.\<close>

definition whileEmptyBodyTokens :: "int Token list" where
  "whileEmptyBodyTokens =
     [tok WHILE ''WHILE'', ident ''x'', tok LESS_THAN ''<'', intTok ''10'' 10, tok DO ''DO'',
      tok SEMICOLON '';'']"

text \<open>\<^verbatim>\<open>WRITE ;\<close>, \<^verbatim>\<open>WRITELN ;\<close> and \<^verbatim>\<open>WRITE ( x : 8 : 2 )\<close>\<close>

definition writeNoArgumentTokens :: "int Token list" where
  "writeNoArgumentTokens = [tok TokenType.WRITE ''WRITE'', tok SEMICOLON '';'']"

definition writelnAloneTokens :: "int Token list" where
  "writelnAloneTokens = [tok TokenType.WRITELN ''WRITELN'', tok SEMICOLON '';'']"

definition writeFormattedTokens :: "int Token list" where
  "writeFormattedTokens =
     [tok LPAREN ''('', ident ''x'', tok COLON '':'', intTok ''8'' 8, tok COLON '':'',
      intTok ''2'' 2, tok RPAREN '')'']"

text \<open>The tree properties, for a pointer that may be null.\<close>

definition binaryOpt :: "'v Node option \<Rightarrow> bool" where
  "binaryOpt e \<longleftrightarrow> (case e of None \<Rightarrow> True | Some x \<Rightarrow> relationalBinary x)"

definition plainOpt :: "'v Node option \<Rightarrow> bool" where
  "plainOpt e \<longleftrightarrow> (case e of None \<Rightarrow> True | Some x \<Rightarrow> noRelational x)"

definition statementOpt :: "'v Node option \<Rightarrow> bool" where
  "statementOpt e \<longleftrightarrow> (case e of None \<Rightarrow> True | Some s \<Rightarrow> ntype s \<in> statementNodeTypes)"

text \<open>\<^verbatim>\<open>8 - 4 - 2 * 3\<close> as a chain.\<close>

definition subtractionChain :: "int simpleChain" where
  "subtractionChain =
     ((intTok ''8'' 8, []),
      [(tok MINUS ''-'', (intTok ''4'' 4, [])),
       (tok MINUS ''-'', (intTok ''2'' 2, [(tok STAR ''*'', intTok ''3'' 3)]))])"

section \<open>Basic facts about the state\<close>

lemma nextToken_fields [simp]:
  "errorCount (nextToken p) = errorCount p"
  "printed (nextToken p) = printed p"
  "symtab (nextToken p) = symtab p"
  "lineNumber (nextToken p) = lineNumber p"
  by (simp_all add: nextToken_def split: list.splits)

lemma skipToFollower_fields [simp]:
  "errorCount (skipToFollower p) = errorCount p"
  "printed (skipToFollower p) = printed p"
  "symtab (skipToFollower p) = symtab p"
  "lineNumber (skipToFollower p) = lineNumber p"
  by (induction p rule: skipToFollower.induct; subst skipToFollower.simps; simp)+

text \<open>The recovery loop stops on a statement follower, and does nothing on one.\<close>

lemma skipToFollower_follower:
  "ttype (currentToken (skipToFollower p)) \<in> statementFollowers"
  by (induction p rule: skipToFollower.induct) (subst skipToFollower.simps, simp)

lemma skipToFollower_id:
  "ttype (currentToken p) \<in> statementFollowers \<Longrightarrow> skipToFollower p = p"
  by (subst skipToFollower.simps) simp

lemma skipSemicolons_fields [simp]:
  "errorCount (skipSemicolons p) = errorCount p"
  "printed (skipSemicolons p) = printed p"
  "symtab (skipSemicolons p) = symtab p"
  "lineNumber (skipSemicolons p) = lineNumber p"
  by (induction p rule: skipSemicolons.induct; subst skipSemicolons.simps; simp)+

text \<open>Each reported error counts once and prints one line.\<close>

lemma syntaxError_fields [simp]:
  "errorCount (syntaxError m p) = errorCount p + 1"
  "printed (syntaxError m p) =
     printed p @ [SyntaxErrorAt (lineNumber p) m (ttext (currentToken p))]"
  "symtab (syntaxError m p) = symtab p"
  "lineNumber (syntaxError m p) = lineNumber p"
  by (simp_all add: syntaxError_def)

lemma syntaxError_follower:
  "ttype (currentToken (syntaxError m p)) \<in> statementFollowers"
  by (simp add: syntaxError_def skipToFollower_follower)

lemma syntaxError_at_follower:
  "ttype (currentToken p) \<in> statementFollowers \<Longrightarrow>
   currentToken (syntaxError m p) = currentToken p \<and> scanner (syntaxError m p) = scanner p"
  by (simp add: syntaxError_def skipToFollower_id)

lemma semanticError_fields [simp]:
  "errorCount (semanticError m p) = errorCount p + 1"
  "printed (semanticError m p) =
     printed p @ [SemanticErrorAt (lineNumber p) m (ttext (currentToken p))]"
  "symtab (semanticError m p) = symtab p"
  "lineNumber (semanticError m p) = lineNumber p"
  "currentToken (semanticError m p) = currentToken p"
  "scanner (semanticError m p) = scanner p"
  by (simp_all add: semanticError_def)

section \<open>The depth bound and the error count, for expressions\<close>

text \<open>A production that returns within a bound returns the same within any larger bound.\<close>

lemma expr_fuel_aux:
  "\<forall>m\<ge>n.
   (\<forall>(p::'v Parser) r. parseExpression n p = Some r \<longrightarrow> parseExpression m p = Some r) \<and>
   (\<forall>(p::'v Parser) r.
      parseSimpleExpression n p = Some r \<longrightarrow> parseSimpleExpression m p = Some r) \<and>
   (\<forall>(p::'v Parser) acc r.
      simpleExpressionLoop n acc p = Some r \<longrightarrow> simpleExpressionLoop m acc p = Some r) \<and>
   (\<forall>(p::'v Parser) r. parseTerm n p = Some r \<longrightarrow> parseTerm m p = Some r) \<and>
   (\<forall>(p::'v Parser) acc r. termLoop n acc p = Some r \<longrightarrow> termLoop m acc p = Some r) \<and>
   (\<forall>(p::'v Parser) r. parseFactor n p = Some r \<longrightarrow> parseFactor m p = Some r)"
proof (induction n)
  case 0
  show ?case by simp
next
  case (Suc n)
  show ?case
  proof (intro allI impI)
    fix k assume "Suc n \<le> k"
    then obtain m where k: "k = Suc m" and le: "n \<le> m" by (cases k) auto
    have E: "parseExpression n p = Some r \<Longrightarrow> parseExpression m p = Some r"
      for p :: "'v Parser" and r using Suc.IH le by blast
    have S: "parseSimpleExpression n p = Some r \<Longrightarrow> parseSimpleExpression m p = Some r"
      for p :: "'v Parser" and r using Suc.IH le by blast
    have SL: "simpleExpressionLoop n acc p = Some r \<Longrightarrow> simpleExpressionLoop m acc p = Some r"
      for p :: "'v Parser" and acc r using Suc.IH le by blast
    have T: "parseTerm n p = Some r \<Longrightarrow> parseTerm m p = Some r"
      for p :: "'v Parser" and r using Suc.IH le by blast
    have TL: "termLoop n acc p = Some r \<Longrightarrow> termLoop m acc p = Some r"
      for p :: "'v Parser" and acc r using Suc.IH le by blast
    have F: "parseFactor n p = Some r \<Longrightarrow> parseFactor m p = Some r"
      for p :: "'v Parser" and r using Suc.IH le by blast
    have 1: "parseExpression (Suc n) p = Some r \<Longrightarrow> parseExpression (Suc m) p = Some r"
      for p :: "'v Parser" and r
      by (auto split: bind_splits if_splits option.splits dest!: S)
    have 2: "parseSimpleExpression (Suc n) p = Some r \<Longrightarrow>
             parseSimpleExpression (Suc m) p = Some r"
      for p :: "'v Parser" and r
      by (auto split: bind_splits dest!: T SL)
    have 3: "simpleExpressionLoop (Suc n) acc p = Some r \<Longrightarrow>
             simpleExpressionLoop (Suc m) acc p = Some r"
      for p :: "'v Parser" and acc r
      by (auto split: bind_splits if_splits dest!: T SL)
    have 4: "parseTerm (Suc n) p = Some r \<Longrightarrow> parseTerm (Suc m) p = Some r"
      for p :: "'v Parser" and r
      by (auto split: bind_splits dest!: F TL)
    have 5: "termLoop (Suc n) acc p = Some r \<Longrightarrow> termLoop (Suc m) acc p = Some r"
      for p :: "'v Parser" and acc r
      by (auto split: bind_splits if_splits dest!: F TL)
    have 6: "parseFactor (Suc n) p = Some r \<Longrightarrow> parseFactor (Suc m) p = Some r"
      for p :: "'v Parser" and r
      by (auto split: bind_splits if_splits prod.splits dest!: E)
    show "(\<forall>(p::'v Parser) r.
             parseExpression (Suc n) p = Some r \<longrightarrow> parseExpression k p = Some r) \<and>
          (\<forall>(p::'v Parser) r.
             parseSimpleExpression (Suc n) p = Some r \<longrightarrow> parseSimpleExpression k p = Some r) \<and>
          (\<forall>(p::'v Parser) acc r.
             simpleExpressionLoop (Suc n) acc p = Some r \<longrightarrow>
             simpleExpressionLoop k acc p = Some r) \<and>
          (\<forall>(p::'v Parser) r. parseTerm (Suc n) p = Some r \<longrightarrow> parseTerm k p = Some r) \<and>
          (\<forall>(p::'v Parser) acc r.
             termLoop (Suc n) acc p = Some r \<longrightarrow> termLoop k acc p = Some r) \<and>
          (\<forall>(p::'v Parser) r. parseFactor (Suc n) p = Some r \<longrightarrow> parseFactor k p = Some r)"
      unfolding k using 1 2 3 4 5 6 by blast
  qed
qed

lemmas expr_fuel = expr_fuel_aux [THEN spec, THEN mp]

lemma parseExpression_fuel:
  "parseExpression n p = Some r \<Longrightarrow> n \<le> m \<Longrightarrow> parseExpression m p = Some r"
  by (drule expr_fuel [of n m, THEN conjunct1, THEN spec, THEN spec, THEN mp, rotated])

lemma parseSimpleExpression_fuel:
  "parseSimpleExpression n p = Some r \<Longrightarrow> n \<le> m \<Longrightarrow> parseSimpleExpression m p = Some r"
  by (drule expr_fuel [of n m, THEN conjunct2, THEN conjunct1, THEN spec, THEN spec, THEN mp,
        rotated])

lemma parseVariable_errorCount:
  "parseVariable p = (v, p') \<Longrightarrow> errorCount p \<le> errorCount p'"
  by (auto simp: parseVariable_def Let_def split: if_splits)

lemma leaf_errorCount:
  "parseIntegerConstant p = (v, p') \<Longrightarrow> errorCount p' = errorCount p"
  "parseRealConstant p = (v, p') \<Longrightarrow> errorCount p' = errorCount p"
  "parseStringConstant p = (v, p') \<Longrightarrow> errorCount p' = errorCount p"
  by (auto simp: parseIntegerConstant_def parseRealConstant_def parseStringConstant_def)

text \<open>
  No expression production lowers the error count, and one that answers the null
  pointer has reported an error.
\<close>

lemma expr_errors_aux:
  "(\<forall>(p::'v Parser) e p'. parseExpression n p = Some (e, p') \<longrightarrow> errorsGrow p e p') \<and>
   (\<forall>(p::'v Parser) e p'. parseSimpleExpression n p = Some (e, p') \<longrightarrow> errorsGrow p e p') \<and>
   (\<forall>(p::'v Parser) acc e p'. simpleExpressionLoop n acc p = Some (e, p') \<longrightarrow>
       errorCount p \<le> errorCount p' \<and> (e = None \<longrightarrow> acc = None \<and> p' = p)) \<and>
   (\<forall>(p::'v Parser) e p'. parseTerm n p = Some (e, p') \<longrightarrow> errorsGrow p e p') \<and>
   (\<forall>(p::'v Parser) acc e p'. termLoop n acc p = Some (e, p') \<longrightarrow>
       errorCount p \<le> errorCount p' \<and> (e = None \<longrightarrow> acc = None \<and> p' = p)) \<and>
   (\<forall>(p::'v Parser) e p'. parseFactor n p = Some (e, p') \<longrightarrow> errorsGrow p e p')"
proof (induction n)
  case 0
  show ?case by simp
next
  case (Suc n)
  have E: "parseExpression n p = Some (e, p') \<Longrightarrow> errorsGrow p e p'"
    for p :: "'v Parser" and e p' using Suc.IH by blast
  have S: "parseSimpleExpression n p = Some (e, p') \<Longrightarrow> errorsGrow p e p'"
    for p :: "'v Parser" and e p' using Suc.IH by blast
  have SL: "simpleExpressionLoop n acc p = Some (e, p') \<Longrightarrow>
       errorCount p \<le> errorCount p' \<and> (e = None \<longrightarrow> acc = None \<and> p' = p)"
    for p :: "'v Parser" and acc e p' using Suc.IH by blast
  have T: "parseTerm n p = Some (e, p') \<Longrightarrow> errorsGrow p e p'"
    for p :: "'v Parser" and e p' using Suc.IH by blast
  have TL: "termLoop n acc p = Some (e, p') \<Longrightarrow>
       errorCount p \<le> errorCount p' \<and> (e = None \<longrightarrow> acc = None \<and> p' = p)"
    for p :: "'v Parser" and acc e p' using Suc.IH by blast
  have F: "parseFactor n p = Some (e, p') \<Longrightarrow> errorsGrow p e p'"
    for p :: "'v Parser" and e p' using Suc.IH by blast
  have 1: "parseExpression (Suc n) p = Some (e, p') \<Longrightarrow> errorsGrow p e p'"
    for p :: "'v Parser" and e p'
    by (auto split: bind_splits if_splits option.splits dest!: S simp: errorsGrow_def)
  have 2: "parseSimpleExpression (Suc n) p = Some (e, p') \<Longrightarrow> errorsGrow p e p'"
    for p :: "'v Parser" and e p'
    by (auto split: bind_splits dest!: T SL simp: errorsGrow_def)
  have 3: "simpleExpressionLoop (Suc n) acc p = Some (e, p') \<Longrightarrow>
       errorCount p \<le> errorCount p' \<and> (e = None \<longrightarrow> acc = None \<and> p' = p)"
    for p :: "'v Parser" and acc e p'
    by (auto split: bind_splits if_splits dest!: T SL simp: errorsGrow_def)
  have 4: "parseTerm (Suc n) p = Some (e, p') \<Longrightarrow> errorsGrow p e p'"
    for p :: "'v Parser" and e p'
    by (auto split: bind_splits dest!: F TL simp: errorsGrow_def)
  have 5: "termLoop (Suc n) acc p = Some (e, p') \<Longrightarrow>
       errorCount p \<le> errorCount p' \<and> (e = None \<longrightarrow> acc = None \<and> p' = p)"
    for p :: "'v Parser" and acc e p'
    by (auto split: bind_splits if_splits dest!: F TL simp: errorsGrow_def)
  have 6: "parseFactor (Suc n) p = Some (e, p') \<Longrightarrow> errorsGrow p e p'"
    for p :: "'v Parser" and e p'
    by (auto split: bind_splits if_splits prod.splits
          dest!: E parseVariable_errorCount leaf_errorCount simp: errorsGrow_def)
  show ?case using 1 2 3 4 5 6 by blast
qed

lemma parseExpression_errors:
  "parseExpression n p = Some (e, p') \<Longrightarrow> errorsGrow p e p'"
  by (rule expr_errors_aux [of n, THEN conjunct1, THEN spec, THEN spec, THEN spec, THEN mp])

section \<open>The depth bound and the error count, for statements\<close>

lemma writeArgument_errorCount:
  "writeArgument node p = (node', b, p') \<Longrightarrow> errorCount p \<le> errorCount p'"
  by (auto simp: writeArgument_def parseVariable_def parseStringConstant_def Let_def
        split: if_splits)

lemma writeDecimalPlaces_errorCount:
  "writeDecimalPlaces node p = (node', p') \<Longrightarrow> errorCount p \<le> errorCount p'"
  by (auto simp: writeDecimalPlaces_def parseIntegerConstant_def Let_def split: if_splits)

lemma writeFieldWidth_errorCount:
  "writeFieldWidth node p = (node', p') \<Longrightarrow> errorCount p \<le> errorCount p'"
  by (auto simp: writeFieldWidth_def parseIntegerConstant_def Let_def split: if_splits
        dest!: writeDecimalPlaces_errorCount)

lemma parseWriteArguments_errorCount:
  "parseWriteArguments node p = (node', p') \<Longrightarrow> errorCount p \<le> errorCount p'"
  by (auto simp: parseWriteArguments_def Let_def split: if_splits prod.splits
        dest!: writeArgument_errorCount writeFieldWidth_errorCount)

lemma parseWriteStatement_errorCount:
  "parseWriteStatement p = (node', p') \<Longrightarrow> errorCount p \<le> errorCount p'"
  by (auto simp: parseWriteStatement_def Let_def split: if_splits prod.splits
        dest!: parseWriteArguments_errorCount)

lemma parseWritelnStatement_errorCount:
  "parseWritelnStatement p = (node', p') \<Longrightarrow> errorCount p \<le> errorCount p'"
  by (auto simp: parseWritelnStatement_def Let_def split: if_splits prod.splits
        dest!: parseWriteArguments_errorCount)

lemma assignmentTarget_fields [simp]:
  "errorCount (snd (assignmentTarget p)) = errorCount p"
  "printed (snd (assignmentTarget p)) = printed p"
  "lineNumber (snd (assignmentTarget p)) = lineNumber p"
  by (simp_all add: assignmentTarget_def Let_def enter_def split: option.splits)

lemma parseAssignmentStatement_fuel:
  "parseAssignmentStatement n p = Some r \<Longrightarrow> n \<le> m \<Longrightarrow> parseAssignmentStatement m p = Some r"
  by (auto simp: parseAssignmentStatement_def Let_def
        split: prod.splits bind_splits if_splits dest!: parseExpression_fuel [of n _ _ m])

lemma parseAssignmentStatement_errorCount:
  "parseAssignmentStatement n p = Some (node, p') \<Longrightarrow> errorCount p \<le> errorCount p'"
proof -
  assume a: "parseAssignmentStatement n p = Some (node, p')"
  obtain lhs p2 where t: "assignmentTarget p = (lhs, p2)" by (cases "assignmentTarget p")
  have "errorCount p2 = errorCount p" using assignmentTarget_fields(1)[of p] t by simp
  then show ?thesis using a t
    by (auto simp: parseAssignmentStatement_def Let_def errorsGrow_def
          split: bind_splits if_splits dest!: parseExpression_errors)
qed

lemma statement_kind_cases:
  obtains "k = IDENTIFIER" | "k = BEGIN" | "k = REPEAT" | "k = TokenType.WRITE"
  | "k = TokenType.WRITELN" | "k = WHILE" | "k = SEMICOLON"
  | "k \<noteq> IDENTIFIER" "k \<noteq> BEGIN" "k \<noteq> REPEAT" "k \<noteq> TokenType.WRITE"
    "k \<noteq> TokenType.WRITELN" "k \<noteq> WHILE" "k \<noteq> SEMICOLON"
  by blast

lemma stmt_fuel_aux:
  "\<forall>m\<ge>n.
   (\<forall>(p::'v Parser) r. parseStatement n p = Some r \<longrightarrow> parseStatement m p = Some r) \<and>
   (\<forall>(p::'v Parser) r.
      parseCompoundStatement n p = Some r \<longrightarrow> parseCompoundStatement m p = Some r) \<and>
   (\<forall>(p::'v Parser) parent t r.
      parseStatementList n parent t p = Some r \<longrightarrow> parseStatementList m parent t p = Some r) \<and>
   (\<forall>(p::'v Parser) r.
      parseRepeatStatement n p = Some r \<longrightarrow> parseRepeatStatement m p = Some r) \<and>
   (\<forall>(p::'v Parser) r.
      parseWhileStatement n p = Some r \<longrightarrow> parseWhileStatement m p = Some r)"
proof (induction n)
  case 0
  show ?case by simp
next
  case (Suc n)
  show ?case
  proof (intro allI impI)
    fix k assume "Suc n \<le> k"
    then obtain m where k: "k = Suc m" and le: "n \<le> m" by (cases k) auto
    have St: "parseStatement n p = Some r \<Longrightarrow> parseStatement m p = Some r"
      for p :: "'v Parser" and r using Suc.IH le by blast
    have C: "parseCompoundStatement n p = Some r \<Longrightarrow> parseCompoundStatement m p = Some r"
      for p :: "'v Parser" and r using Suc.IH le by blast
    have L: "parseStatementList n parent t p = Some r \<Longrightarrow>
             parseStatementList m parent t p = Some r"
      for p :: "'v Parser" and parent t r using Suc.IH le by blast
    have R: "parseRepeatStatement n p = Some r \<Longrightarrow> parseRepeatStatement m p = Some r"
      for p :: "'v Parser" and r using Suc.IH le by blast
    have W: "parseWhileStatement n p = Some r \<Longrightarrow> parseWhileStatement m p = Some r"
      for p :: "'v Parser" and r using Suc.IH le by blast
    have A: "parseAssignmentStatement n p = Some r \<Longrightarrow> parseAssignmentStatement m p = Some r"
      for p :: "'v Parser" and r using parseAssignmentStatement_fuel le by blast
    have E: "parseExpression n p = Some r \<Longrightarrow> parseExpression m p = Some r"
      for p :: "'v Parser" and r using parseExpression_fuel le by blast
    have 1: "parseStatement (Suc n) p = Some r \<Longrightarrow> parseStatement (Suc m) p = Some r"
      for p :: "'v Parser" and r
      by (rule statement_kind_cases [of "ttype (currentToken p)"];
          auto simp: Let_def split: bind_splits dest!: A C R W)
    have 2: "parseCompoundStatement (Suc n) p = Some r \<Longrightarrow>
             parseCompoundStatement (Suc m) p = Some r"
      for p :: "'v Parser" and r
      by (auto simp: Let_def split: bind_splits if_splits dest!: L)
    have 3: "parseStatementList (Suc n) parent t p = Some r \<Longrightarrow>
             parseStatementList (Suc m) parent t p = Some r"
      for p :: "'v Parser" and parent t r
      by (auto simp: Let_def split: bind_splits if_splits dest!: St L)
    have 4: "parseRepeatStatement (Suc n) p = Some r \<Longrightarrow>
             parseRepeatStatement (Suc m) p = Some r"
      for p :: "'v Parser" and r
      by (auto simp: Let_def split: bind_splits if_splits dest!: L E)
    have 5: "parseWhileStatement (Suc n) p = Some r \<Longrightarrow>
             parseWhileStatement (Suc m) p = Some r"
      for p :: "'v Parser" and r
      by (auto simp: Let_def split: bind_splits if_splits dest!: St E)
    show "(\<forall>(p::'v Parser) r.
             parseStatement (Suc n) p = Some r \<longrightarrow> parseStatement k p = Some r) \<and>
          (\<forall>(p::'v Parser) r.
             parseCompoundStatement (Suc n) p = Some r \<longrightarrow>
             parseCompoundStatement k p = Some r) \<and>
          (\<forall>(p::'v Parser) parent t r.
             parseStatementList (Suc n) parent t p = Some r \<longrightarrow>
             parseStatementList k parent t p = Some r) \<and>
          (\<forall>(p::'v Parser) r.
             parseRepeatStatement (Suc n) p = Some r \<longrightarrow> parseRepeatStatement k p = Some r) \<and>
          (\<forall>(p::'v Parser) r.
             parseWhileStatement (Suc n) p = Some r \<longrightarrow> parseWhileStatement k p = Some r)"
      unfolding k using 1 2 3 4 5 by blast
  qed
qed

lemmas stmt_fuel = stmt_fuel_aux [THEN spec, THEN mp]

lemma parseStatement_fuel:
  "parseStatement n p = Some r \<Longrightarrow> n \<le> m \<Longrightarrow> parseStatement m p = Some r"
  by (drule stmt_fuel [of n m, THEN conjunct1, THEN spec, THEN spec, THEN mp, rotated])

lemma parseCompoundStatement_fuel:
  "parseCompoundStatement n p = Some r \<Longrightarrow> n \<le> m \<Longrightarrow> parseCompoundStatement m p = Some r"
  by (drule stmt_fuel [of n m, THEN conjunct2, THEN conjunct1, THEN spec, THEN spec, THEN mp,
        rotated])

lemma stmt_errors_aux:
  "(\<forall>(p::'v Parser) e p'. parseStatement n p = Some (e, p') \<longrightarrow> errorCount p \<le> errorCount p') \<and>
   (\<forall>(p::'v Parser) e p'.
      parseCompoundStatement n p = Some (e, p') \<longrightarrow> errorCount p \<le> errorCount p') \<and>
   (\<forall>(p::'v Parser) parent t e p'.
      parseStatementList n parent t p = Some (e, p') \<longrightarrow> errorCount p \<le> errorCount p') \<and>
   (\<forall>(p::'v Parser) e p'.
      parseRepeatStatement n p = Some (e, p') \<longrightarrow> errorCount p \<le> errorCount p') \<and>
   (\<forall>(p::'v Parser) e p'.
      parseWhileStatement n p = Some (e, p') \<longrightarrow> errorCount p \<le> errorCount p')"
proof (induction n)
  case 0
  show ?case by simp
next
  case (Suc n)
  have St: "parseStatement n p = Some (e, p') \<Longrightarrow> errorCount p \<le> errorCount p'"
    for p :: "'v Parser" and e p' using Suc.IH by blast
  have C: "parseCompoundStatement n p = Some (e, p') \<Longrightarrow> errorCount p \<le> errorCount p'"
    for p :: "'v Parser" and e p' using Suc.IH by blast
  have L: "parseStatementList n parent t p = Some (e, p') \<Longrightarrow> errorCount p \<le> errorCount p'"
    for p :: "'v Parser" and parent t e p' using Suc.IH by blast
  have R: "parseRepeatStatement n p = Some (e, p') \<Longrightarrow> errorCount p \<le> errorCount p'"
    for p :: "'v Parser" and e p' using Suc.IH by blast
  have W: "parseWhileStatement n p = Some (e, p') \<Longrightarrow> errorCount p \<le> errorCount p'"
    for p :: "'v Parser" and e p' using Suc.IH by blast
  have E: "parseExpression n p = Some (e, p') \<Longrightarrow> errorCount p \<le> errorCount p'"
    for p :: "'v Parser" and e p' using parseExpression_errors[of n p e p'] by (simp add: errorsGrow_def)
  note A = parseAssignmentStatement_errorCount
  have 1: "parseStatement (Suc n) p = Some (e, p') \<Longrightarrow> errorCount p \<le> errorCount p'"
    for p :: "'v Parser" and e p'
    by (rule statement_kind_cases [of "ttype (currentToken p)"];
        auto simp: Let_def split: bind_splits prod.splits
          dest!: A C R W parseWriteStatement_errorCount parseWritelnStatement_errorCount)
  have 2: "parseCompoundStatement (Suc n) p = Some (e, p') \<Longrightarrow> errorCount p \<le> errorCount p'"
    for p :: "'v Parser" and e p'
    by (auto simp: Let_def split: bind_splits if_splits dest!: L)
  have 3: "parseStatementList (Suc n) parent t p = Some (e, p') \<Longrightarrow>
           errorCount p \<le> errorCount p'"
    for p :: "'v Parser" and parent t e p'
    by (auto simp: Let_def split: bind_splits if_splits dest!: St L)
  have 4: "parseRepeatStatement (Suc n) p = Some (e, p') \<Longrightarrow> errorCount p \<le> errorCount p'"
    for p :: "'v Parser" and e p'
    by (auto simp: Let_def split: bind_splits if_splits dest!: L E)
  have 5: "parseWhileStatement (Suc n) p = Some (e, p') \<Longrightarrow> errorCount p \<le> errorCount p'"
    for p :: "'v Parser" and e p'
    by (auto simp: Let_def split: bind_splits if_splits dest!: St E)
  show ?case using 1 2 3 4 5 by blast
qed

lemma parseStatement_errorCount:
  "parseStatement n p = Some (e, p') \<Longrightarrow> errorCount p \<le> errorCount p'"
  by (rule stmt_errors_aux [of n, THEN conjunct1, THEN spec, THEN spec, THEN spec, THEN mp])

lemma parseStatementList_errorCount:
  "parseStatementList n parent t p = Some (e, p') \<Longrightarrow> errorCount p \<le> errorCount p'"
  by (rule stmt_errors_aux [of n, THEN conjunct2, THEN conjunct2, THEN conjunct1,
        THEN spec, THEN spec, THEN spec, THEN spec, THEN spec, THEN mp])

section \<open>A statement list does not get past a stray statement follower\<close>

text \<open>
  On \<^verbatim>\<open>END\<close>, \<^verbatim>\<open>UNTIL\<close> or \<^verbatim>\<open>DO\<close>, \<^verbatim>\<open>parseStatement\<close> reports an error and skips
  nothing, since the token is a statement follower already.
\<close>

lemma parseStatement_stray_follower:
  assumes "ttype (currentToken p) \<in> {END, UNTIL, DO}"
  shows "parseStatement (Suc n) p =
           Some (None, syntaxError ''Unexpected token''
                         (p\<lparr>lineNumber := tlineNumber (currentToken p)\<rparr>))"
  using assms by (auto simp: Let_def)

text \<open>
  So the loop of \<^verbatim>\<open>parseStatementList\<close> meets the same token again, whatever the bound
  on its iterations: it never returns.
\<close>

lemma parseStatementList_stray_follower:
  assumes "ttype (currentToken p) \<in> {END, UNTIL, DO}"
    and "ttype (currentToken p) \<noteq> terminalType"
  shows "parseStatementList n parentNode terminalType p = None"
  using assms
proof (induction n arbitrary: p)
  case 0
  show ?case by simp
next
  case (Suc n)
  show ?case
  proof (cases n)
    case 0
    with Suc.prems show ?thesis by auto
  next
    case (Suc m)
    let ?q = "syntaxError ''Unexpected token'' (p\<lparr>lineNumber := tlineNumber (currentToken p)\<rparr>)"
    have st: "parseStatement n p = Some (None, ?q)"
      using Suc Suc.prems(1) parseStatement_stray_follower by blast
    have cur: "currentToken ?q = currentToken p"
      using Suc.prems(1)
      by (subst syntaxError_at_follower[THEN conjunct1]) (auto simp: statementFollowers_def)
    have stuck: "parseStatementList n parentNode terminalType ?q = None"
      using Suc.IH[of ?q] Suc.prems cur by simp
    have "ttype (currentToken p) \<noteq> SEMICOLON" "ttype (currentToken p) \<notin> statementStarters"
      "ttype (currentToken p) \<noteq> END_OF_FILE"
      using Suc.prems(1) by (auto simp: statementStarters_def)
    then show ?thesis
      using st cur stuck Suc.prems(2) by simp
  qed
qed

lemma parseCompound_strayDo:
  "parseCompoundStatement n (strayDoState\<lparr>currentToken := tok BEGIN ''BEGIN'',
      scanner := tok DO ''DO'' # scanner strayDoState\<rparr>) = None"
proof (cases n)
  case 0
  then show ?thesis by simp
next
  case (Suc m)
  have "parseStatementList m parentNode END strayDoState = None" for parentNode
    by (rule parseStatementList_stray_follower) (simp_all add: strayDoState_def tok_def)
  then show ?thesis using Suc
    by (simp add: nextToken_def strayDoState_def)
qed

text \<open>
  C7. Recovery from a syntax error is claimed always to end, \<^verbatim>\<open>parseProgram\<close> always
  returning a PROGRAM root. The skip loop itself ends on a statement follower and
  each error counts once (\<open>syntaxError_follower\<close>, \<open>syntaxError_fields\<close>). But on
  \<^verbatim>\<open>PROGRAM p ; BEGIN DO END\<close> the statement list of the compound statement reports
  "Unexpected token" at \<^verbatim>\<open>DO\<close> again and again: whatever the bound on depth and
  iterations, \<^verbatim>\<open>parseProgram\<close> does not return.
\<close>

theorem parseProgram_stray_DO_never_returns:
  "parseProgram n (newParser strayDoProgram []) = None"
proof -
  have "parseProgram n (newParser strayDoProgram []) =
          do {
            (compoundNode, p6) \<leftarrow> parseCompoundStatement n
               (strayDoState\<lparr>currentToken := tok BEGIN ''BEGIN'',
                  scanner := tok DO ''DO'' # scanner strayDoState\<rparr>);
            let p7 = (if ttype (currentToken p6) = SEMICOLON then syntaxError ''Expecting .'' p6
                      else p6);
            Some (adopt (setText ''p'' (newNode NodeType.PROGRAM)) (Some compoundNode), p7)
          }"
    by (simp add: parseProgram_def newParser_def nextToken_def strayDoProgram_def tok_def
          ident_def enter_def Let_def strayDoState_def)
  then show ?thesis by (simp add: parseCompound_strayDo)
qed

section \<open>C1: a missing separator\<close>

text \<open>
  C1 as stated fails. On \<^verbatim>\<open>BEGIN a := 1 a := 2 END\<close> the compound statement does not
  hold two ASSIGN children: the second assignment is not parsed.
\<close>

theorem missing_separator_second_assignment_lost:
  "map_option (childKinds \<circ> fst) (parseCompoundStatement 7 (startParser missingSeparatorTokens []))
     \<noteq> Some [Some ASSIGN, Some ASSIGN]"
  by code_simp

text \<open>
  C1, amended. On \<^verbatim>\<open>BEGIN a := 1 a := 2 END\<close>, parsing reports exactly one syntax error
  ("Missing ;" at the second \<^verbatim>\<open>a\<close>, the error count going from 0 to 1), and the recovery
  of that error discards the tokens of the second assignment up to \<^verbatim>\<open>END\<close>: the COMPOUND
  node returned has the first ASSIGN node as its only child.
\<close>

theorem missing_separator_one_error_one_assignment:
  "7 \<le> n \<Longrightarrow>
   parseCompoundStatement n (startParser missingSeparatorTokens []) =
     Some (Node COMPOUND 1 [] None None
             [Some (Node ASSIGN 1 [] None None
                [Some (Node VARIABLE 0 ''a'' (Some (SymtabEntry ''a'')) None []),
                 Some (Node INTEGER_CONSTANT 0 [] None (Some 1) [])])],
           \<lparr>currentToken = eofToken, scanner = [], symtab = [SymtabEntry ''a''],
            lineNumber = 1, errorCount = 1, printed = [SyntaxErrorAt 1 ''Missing ;'' ''a'']\<rparr>)"
proof -
  assume le: "7 \<le> n"
  have "parseCompoundStatement 7 (startParser missingSeparatorTokens []) =
     Some (Node COMPOUND 1 [] None None
             [Some (Node ASSIGN 1 [] None None
                [Some (Node VARIABLE 0 ''a'' (Some (SymtabEntry ''a'')) None []),
                 Some (Node INTEGER_CONSTANT 0 [] None (Some 1) [])])],
           \<lparr>currentToken = eofToken, scanner = [], symtab = [SymtabEntry ''a''],
            lineNumber = 1, errorCount = 1, printed = [SyntaxErrorAt 1 ''Missing ;'' ''a'']\<rparr>)"
    by code_simp
  then show ?thesis using le by (rule parseCompoundStatement_fuel)
qed

theorem missing_separator_witness:
  "errorCount (snd (the (parseCompoundStatement 9 (startParser missingSeparatorTokens [])))) = 1 \<and>
   childKinds (fst (the (parseCompoundStatement 9 (startParser missingSeparatorTokens [])))) =
     [Some ASSIGN]"
proof -
  have "(7::nat) \<le> 9" by simp
  from missing_separator_one_error_one_assignment [OF this]
  show ?thesis by (simp add: childKinds_def)
qed

section \<open>C6: an undeclared identifier in an expression\<close>

text \<open>
  C6. When the lookup of an identifier in expression position misses, \<^verbatim>\<open>parseVariable\<close>
  reports exactly one semantic error (one line printed, the error count one higher),
  skips no token (the state is otherwise that after reading the next token) and answers
  a VARIABLE node with the text as written and no symbol reference. On
  \<^verbatim>\<open>BEGIN y := z END\<close> the ASSIGN node for \<^verbatim>\<open>y\<close> is still returned, its operand
  \<^verbatim>\<open>z\<close> without a symbol reference, with one semantic error.
\<close>

theorem undeclared_operand_reported_once:
  "(lookup (toLowerCase (ttext (currentToken p))) (symtab p) = None \<longrightarrow>
      parseVariable p =
        (Node VARIABLE 0 (ttext (currentToken p)) None None [],
         (nextToken p)\<lparr>errorCount := errorCount p + 1,
            printed := printed p @
              [SemanticErrorAt (lineNumber p) ''Undeclared identifier''
                 (ttext (currentToken p))]\<rparr>)) \<and>
   (7 \<le> n \<longrightarrow>
      parseCompoundStatement n (startParser undeclaredTokens []) =
        Some (Node COMPOUND 1 [] None None
                [Some (Node ASSIGN 1 [] None None
                   [Some (Node VARIABLE 0 ''y'' (Some (SymtabEntry ''y'')) None []),
                    Some (Node VARIABLE 0 ''z'' None None [])])],
              \<lparr>currentToken = eofToken, scanner = [], symtab = [SymtabEntry ''y''],
               lineNumber = 1, errorCount = 1,
               printed = [SemanticErrorAt 1 ''Undeclared identifier'' ''z'']\<rparr>))"
proof (intro conjI impI)
  assume "lookup (toLowerCase (ttext (currentToken p))) (symtab p) = None"
  then show "parseVariable p =
        (Node VARIABLE 0 (ttext (currentToken p)) None None [],
         (nextToken p)\<lparr>errorCount := errorCount p + 1,
            printed := printed p @
              [SemanticErrorAt (lineNumber p) ''Undeclared identifier''
                 (ttext (currentToken p))]\<rparr>)"
    by (simp add: parseVariable_def Let_def semanticError_def nextToken_def newNode_def
          split: list.splits)
next
  assume le: "7 \<le> n"
  have "parseCompoundStatement 7 (startParser undeclaredTokens []) =
        Some (Node COMPOUND 1 [] None None
                [Some (Node ASSIGN 1 [] None None
                   [Some (Node VARIABLE 0 ''y'' (Some (SymtabEntry ''y'')) None []),
                    Some (Node VARIABLE 0 ''z'' None None [])])],
              \<lparr>currentToken = eofToken, scanner = [], symtab = [SymtabEntry ''y''],
               lineNumber = 1, errorCount = 1,
               printed = [SemanticErrorAt 1 ''Undeclared identifier'' ''z'']\<rparr>)"
    by code_simp
  then show "parseCompoundStatement n (startParser undeclaredTokens []) =
        Some (Node COMPOUND 1 [] None None
                [Some (Node ASSIGN 1 [] None None
                   [Some (Node VARIABLE 0 ''y'' (Some (SymtabEntry ''y'')) None []),
                    Some (Node VARIABLE 0 ''z'' None None [])])],
              \<lparr>currentToken = eofToken, scanner = [], symtab = [SymtabEntry ''y''],
               lineNumber = 1, errorCount = 1,
               printed = [SemanticErrorAt 1 ''Undeclared identifier'' ''z'']\<rparr>)"
    using le by (rule parseCompoundStatement_fuel)
qed

theorem undeclared_operand_witness:
  "lookup (toLowerCase (ttext (currentToken (startParser [ident ''z''] [SymtabEntry ''y'']))))
     (symtab (startParser [ident ''z''] [SymtabEntry ''y''])) = None \<and>
   errorCount (snd (parseVariable (startParser [ident ''z''] [SymtabEntry ''y'']))) = 1 \<and>
   nentry (fst (parseVariable (startParser [ident ''z''] [SymtabEntry ''y'']))) = None \<and>
   errorCount (snd (the (parseCompoundStatement 8 (startParser undeclaredTokens [])))) = 1"
proof -
  have h: "lookup (toLowerCase (ttext (currentToken (startParser [ident ''z''] [SymtabEntry ''y'']))))
     (symtab (startParser [ident ''z''] [SymtabEntry ''y''])) = None"
    by code_simp
  have e: "errorCount (startParser [ident ''z''] [SymtabEntry ''y'']) = 0"
    by code_simp
  have le: "(7::nat) \<le> 8" by simp
  from undeclared_operand_reported_once [of "startParser [ident ''z''] [SymtabEntry ''y'']" 8]
    h e le
  show ?thesis by simp
qed

section \<open>C9 and C8: the arguments of WRITE and WRITELN\<close>

lemma adopt_fields [simp]:
  "ntype (adopt node c) = ntype node"
  "nlineNumber (adopt node c) = nlineNumber node"
  "ntext (adopt node c) = ntext node"
  "nentry (adopt node c) = nentry node"
  "nvalue (adopt node c) = nvalue node"
  "children (adopt node c) = children node @ [c]"
  by (cases node; simp)+

lemma setLineNumber_fields [simp]:
  "ntype (setLineNumber l node) = ntype node"
  "nlineNumber (setLineNumber l node) = l"
  "ntext (setLineNumber l node) = ntext node"
  "nentry (setLineNumber l node) = nentry node"
  "nvalue (setLineNumber l node) = nvalue node"
  "children (setLineNumber l node) = children node"
  by (cases node; simp)+

lemma writeArgument_ntype:
  "writeArgument node p = (node', b, p') \<Longrightarrow>
   ntype node' = ntype node \<and> (\<not> b \<longrightarrow> node' = node \<and> errorCount p < errorCount p')"
  by (auto simp: writeArgument_def parseVariable_def parseStringConstant_def Let_def
        split: if_splits)

lemma writeArgument_children:
  "writeArgument node p = (node', True, p') \<Longrightarrow> children node' \<noteq> []"
  by (auto simp: writeArgument_def parseVariable_def parseStringConstant_def Let_def
        split: if_splits)

lemma writeDecimalPlaces_ntype:
  "writeDecimalPlaces node p = (node', p') \<Longrightarrow>
   ntype node' = ntype node \<and> (children node \<noteq> [] \<longrightarrow> children node' \<noteq> [])"
  by (auto simp: writeDecimalPlaces_def parseIntegerConstant_def Let_def split: if_splits)

lemma writeFieldWidth_ntype:
  "writeFieldWidth node p = (node', p') \<Longrightarrow>
   ntype node' = ntype node \<and> (children node \<noteq> [] \<longrightarrow> children node' \<noteq> [])"
  by (auto simp: writeFieldWidth_def parseIntegerConstant_def Let_def split: if_splits
        dest!: writeDecimalPlaces_ntype)

lemma parseWriteArguments_ntype:
  "parseWriteArguments node p = (node', p') \<Longrightarrow> ntype node' = ntype node"
  by (auto simp: parseWriteArguments_def Let_def split: if_splits prod.splits
        dest!: writeArgument_ntype writeFieldWidth_ntype)

lemma parseWriteArguments_no_argument:
  "parseWriteArguments node p = (node', p') \<Longrightarrow> children node = [] \<Longrightarrow> children node' = [] \<Longrightarrow>
   errorCount p < errorCount p'"
  apply (auto simp: parseWriteArguments_def Let_def split: if_splits prod.splits)
  apply (auto dest!: writeArgument_ntype writeArgument_children writeFieldWidth_ntype)
  done

text \<open>
  C9, amended. \<^verbatim>\<open>parseWriteStatement\<close> always answers a WRITE node; that node is childless
  only when a syntax error was reported, the last one being "Invalid WRITE statement"
  (so a WRITE node returned with the error count unchanged has a child). A WRITELN whose
  next token is not a left parenthesis parses no argument and answers a childless
  WRITELN node, the state being that after reading one token: no error is reported.
\<close>

theorem write_node_childless_only_after_error:
  "ntype (fst (parseWriteStatement p)) = NodeType.WRITE \<and>
   (children (fst (parseWriteStatement p)) = [] \<longrightarrow>
      errorCount p < errorCount (snd (parseWriteStatement p)) \<and>
      (\<exists>l t. last (printed (snd (parseWriteStatement p))) =
              SyntaxErrorAt l ''Invalid WRITE statement'' t)) \<and>
   (ttype (currentToken (nextToken p)) \<noteq> LPAREN \<longrightarrow>
      parseWritelnStatement p = (newNode NodeType.WRITELN, nextToken p))"
proof -
  obtain node p1 where a: "parseWriteArguments (newNode NodeType.WRITE) (nextToken p) = (node, p1)"
    by (cases "parseWriteArguments (newNode NodeType.WRITE) (nextToken p)")
  have k: "ntype node = NodeType.WRITE"
    using parseWriteArguments_ntype [OF a] by (simp add: newNode_def)
  have e: "errorCount p \<le> errorCount p1"
    using parseWriteArguments_errorCount [OF a] by simp
  show ?thesis using a k e
    by (simp add: parseWriteStatement_def parseWritelnStatement_def Let_def)
qed

theorem write_node_witness:
  "children (fst (parseWriteStatement (startParser writeNoArgumentTokens []))) = [] \<and>
   errorCount (startParser writeNoArgumentTokens []) <
     errorCount (snd (parseWriteStatement (startParser writeNoArgumentTokens []))) \<and>
   ttype (currentToken (nextToken (startParser writelnAloneTokens []))) \<noteq> LPAREN \<and>
   children (fst (parseWritelnStatement (startParser writelnAloneTokens []))) = []"
proof -
  have h1: "children (fst (parseWriteStatement (startParser writeNoArgumentTokens []))) = []"
    by code_simp
  have h2: "ttype (currentToken (nextToken (startParser writelnAloneTokens []))) \<noteq> LPAREN"
    by code_simp
  from write_node_childless_only_after_error [of "startParser writeNoArgumentTokens []"]
       write_node_childless_only_after_error [of "startParser writelnAloneTokens []"] h1 h2
  show ?thesis by (simp add: newNode_def)
qed

text \<open>
  C9 as stated fails: on \<^verbatim>\<open>WRITE ;\<close> the parser returns a WRITE node without a child.
\<close>

theorem write_node_without_child_returned:
  "ntype (fst (parseWriteStatement (startParser writeNoArgumentTokens []))) = NodeType.WRITE \<and>
   children (fst (parseWriteStatement (startParser writeNoArgumentTokens []))) = []"
  by code_simp

lemma parseIntegerConstant_literal:
  "parseIntegerConstant p = (literalNode (currentToken p), nextToken p)"
  by (simp add: parseIntegerConstant_def literalNode_def newNode_def)

lemma writeArgument_cases:
  "writeArgument node p = (node', b, p') \<Longrightarrow>
   (\<not> b \<and> node' = node) \<or>
   (b \<and> (\<exists>a. node' = adopt node (Some a) \<and> ntype a \<in> {VARIABLE, STRING_CONSTANT}) \<and>
    currentToken p' = currentToken (nextToken p) \<and> scanner p' = scanner (nextToken p))"
  by (auto simp: writeArgument_def parseVariable_def parseStringConstant_def Let_def
        newNode_def nextToken_def semanticError_def split: if_splits list.splits)

lemma writeDecimalPlaces_cases:
  "writeDecimalPlaces node p = (node', p') \<Longrightarrow>
   node' = node \<or>
   (ttype (currentToken p) = COLON \<and> ttype (currentToken (nextToken p)) = INTEGER \<and>
    node' = adopt node (Some (literalNode (currentToken (nextToken p)))))"
  by (auto simp: writeDecimalPlaces_def parseIntegerConstant_literal Let_def split: if_splits)

lemma writeFieldWidth_cases:
  "writeFieldWidth node p = (node', p') \<Longrightarrow>
   node' = node \<or>
   (ttype (currentToken p) = COLON \<and> ttype (currentToken (nextToken p)) = INTEGER \<and>
    (node' = adopt node (Some (literalNode (currentToken (nextToken p)))) \<or>
     (ttype (currentToken (nextToken (nextToken p))) = COLON \<and>
      ttype (currentToken (nextToken (nextToken (nextToken p)))) = INTEGER \<and>
      node' = adopt (adopt node (Some (literalNode (currentToken (nextToken p)))))
                (Some (literalNode (currentToken (nextToken (nextToken (nextToken p)))))))))"
  by (auto simp: writeFieldWidth_def parseIntegerConstant_literal Let_def split: if_splits
        dest!: writeDecimalPlaces_cases)

lemma nextToken_same_tokens:
  "currentToken p = currentToken q \<Longrightarrow> scanner p = scanner q \<Longrightarrow>
   currentToken (nextToken p) = currentToken (nextToken q) \<and>
   scanner (nextToken p) = scanner (nextToken q)"
  by (simp add: nextToken_def split: list.splits)

text \<open>
  C8. The children that \<^verbatim>\<open>parseWriteArguments\<close> adds are, in order: nothing; or the
  argument alone; or the argument and a field width, read from the integer after a
  first colon; or the argument, that field width and a count of decimal places, read
  from the integer after a second colon. Width and count are thus each optional and each
  after its colon, and a count of decimal places is only ever adopted after a field width.
\<close>

theorem decimal_places_only_after_field_width:
  "let q = (if ttype (currentToken p) = LPAREN then nextToken p
            else syntaxError ''Missing left parenthesis'' p);
       t1 = currentToken (nextToken q);
       t2 = currentToken (nextToken (nextToken q));
       t3 = currentToken (nextToken (nextToken (nextToken q)));
       t4 = currentToken (nextToken (nextToken (nextToken (nextToken q))))
   in \<exists>new. children (fst (parseWriteArguments node p)) = children node @ new \<and>
        (new = [] \<or>
         (\<exists>a. ntype a \<in> {VARIABLE, STRING_CONSTANT} \<and>
            (new = [Some a] \<or>
             ttype t1 = COLON \<and> ttype t2 = INTEGER \<and>
               (new = [Some a, Some (literalNode t2)] \<or>
                ttype t3 = COLON \<and> ttype t4 = INTEGER \<and>
                  new = [Some a, Some (literalNode t2), Some (literalNode t4)]))))"
proof -
  define q where "q = (if ttype (currentToken p) = LPAREN then nextToken p
            else syntaxError ''Missing left parenthesis'' p)"
  obtain node1 b p2 where A: "writeArgument node q = (node1, b, p2)"
    by (cases "writeArgument node q")
  obtain node2 p3 where F: "(if b then writeFieldWidth node1 p2 else (node1, p2)) = (node2, p3)"
    by (cases "if b then writeFieldWidth node1 p2 else (node1, p2)")
  have R: "fst (parseWriteArguments node p) = node2"
    using A F unfolding parseWriteArguments_def q_def [symmetric] by (simp add: Let_def)
  have goal: "\<exists>new. children node2 = children node @ new \<and>
        (new = [] \<or>
         (\<exists>a. ntype a \<in> {VARIABLE, STRING_CONSTANT} \<and>
            (new = [Some a] \<or>
             ttype (currentToken (nextToken q)) = COLON \<and>
             ttype (currentToken (nextToken (nextToken q))) = INTEGER \<and>
               (new = [Some a, Some (literalNode (currentToken (nextToken (nextToken q))))] \<or>
                ttype (currentToken (nextToken (nextToken (nextToken q)))) = COLON \<and>
                ttype (currentToken (nextToken (nextToken (nextToken (nextToken q))))) = INTEGER \<and>
                  new = [Some a, Some (literalNode (currentToken (nextToken (nextToken q)))),
                         Some (literalNode
                           (currentToken (nextToken (nextToken (nextToken (nextToken q))))))]))))"
  proof (cases b)
    case False
    then have "node2 = node" using writeArgument_cases [OF A] F by simp
    then show ?thesis by simp
  next
    case True
    then obtain a where a: "node1 = adopt node (Some a)" "ntype a \<in> {VARIABLE, STRING_CONSTANT}"
      and e1: "currentToken p2 = currentToken (nextToken q)" "scanner p2 = scanner (nextToken q)"
      using writeArgument_cases [OF A] by auto
    note e2 = nextToken_same_tokens [OF e1]
    note e3 = nextToken_same_tokens [OF e2 [THEN conjunct1] e2 [THEN conjunct2]]
    note e4 = nextToken_same_tokens [OF e3 [THEN conjunct1] e3 [THEN conjunct2]]
    have W: "writeFieldWidth node1 p2 = (node2, p3)" using F True by simp
    from writeFieldWidth_cases [OF W] show ?thesis
      unfolding e1 e2 [THEN conjunct1] e3 [THEN conjunct1] e4 [THEN conjunct1]
      using a by (intro exI [of _ "drop (length (children node)) (children node2)"]) auto
  qed
  show ?thesis unfolding Let_def q_def [symmetric] R by (rule goal)
qed

text \<open>On \<^verbatim>\<open>( x : 8 : 2 )\<close> the three children are adopted.\<close>

lemma decimal_places_example:
  "childKinds (fst (parseWriteArguments (newNode NodeType.WRITE)
      (startParser writeFormattedTokens [SymtabEntry ''x'']))) =
     [Some VARIABLE, Some INTEGER_CONSTANT, Some INTEGER_CONSTANT]"
  by code_simp

section \<open>C5: the target of an assignment\<close>

lemma lookup_in_symtab: "lookup k st = Some e \<Longrightarrow> e \<in> set st"
  by (auto simp: lookup_def find_Some_iff)

text \<open>
  C5. Handling the target of an assignment never reports an error: the error count and
  the printed lines are unchanged. The VARIABLE node carries the name as written and a
  symbol reference that is never absent, to an entry of the symbol table; when the
  case-insensitive lookup misses, that entry is the name, newly entered. The node is
  the first child of the ASSIGN node that \<^verbatim>\<open>parseAssignmentStatement\<close> returns.
\<close>

theorem assignment_target_always_declared:
  "(case assignmentTarget p of
      (lhs, p1) \<Rightarrow>
        ntype lhs = VARIABLE \<and> ntext lhs = ttext (currentToken p) \<and>
        (\<exists>e. nentry lhs = Some e \<and> e \<in> set (symtab p1)) \<and>
        (lookup (toLowerCase (ttext (currentToken p))) (symtab p) = None \<longrightarrow>
           symtab p1 = symtab p @ [SymtabEntry (ttext (currentToken p))] \<and>
           nentry lhs = Some (SymtabEntry (ttext (currentToken p)))) \<and>
        errorCount p1 = errorCount p \<and> printed p1 = printed p) \<and>
   (parseAssignmentStatement n p = Some (node, p') \<longrightarrow>
      ntype node = ASSIGN \<and>
      (\<exists>rhs. children node = [Some (fst (assignmentTarget p)), rhs]))"
proof (intro conjI)
  show "case assignmentTarget p of
      (lhs, p1) \<Rightarrow>
        ntype lhs = VARIABLE \<and> ntext lhs = ttext (currentToken p) \<and>
        (\<exists>e. nentry lhs = Some e \<and> e \<in> set (symtab p1)) \<and>
        (lookup (toLowerCase (ttext (currentToken p))) (symtab p) = None \<longrightarrow>
           symtab p1 = symtab p @ [SymtabEntry (ttext (currentToken p))] \<and>
           nentry lhs = Some (SymtabEntry (ttext (currentToken p)))) \<and>
        errorCount p1 = errorCount p \<and> printed p1 = printed p"
    by (cases "lookup (toLowerCase (ttext (currentToken p))) (symtab p)")
       (auto simp: assignmentTarget_def Let_def enter_def newNode_def dest: lookup_in_symtab)
  show "parseAssignmentStatement n p = Some (node, p') \<longrightarrow>
      ntype node = ASSIGN \<and>
      (\<exists>rhs. children node = [Some (fst (assignmentTarget p)), rhs])"
    by (auto simp: parseAssignmentStatement_def Let_def newNode_def
          split: prod.splits bind_splits)
qed

theorem assignment_target_witness:
  "lookup (toLowerCase (ttext (currentToken (startParser precedenceTokens []))))
     (symtab (startParser precedenceTokens [])) = None \<and>
   nentry (fst (assignmentTarget (startParser precedenceTokens []))) = Some (SymtabEntry ''x'') \<and>
   errorCount (snd (assignmentTarget (startParser precedenceTokens []))) = 0 \<and>
   (\<exists>node p'. parseAssignmentStatement 6 (startParser precedenceTokens []) = Some (node, p') \<and>
      ntype node = ASSIGN)"
proof -
  have h: "lookup (toLowerCase (ttext (currentToken (startParser precedenceTokens []))))
     (symtab (startParser precedenceTokens [])) = None"
    by code_simp
  have t: "ttext (currentToken (startParser precedenceTokens [])) = ''x''"
    "errorCount (startParser precedenceTokens []) = 0"
    by code_simp+
  obtain lhs p1 where a: "assignmentTarget (startParser precedenceTokens []) = (lhs, p1)"
    by (cases "assignmentTarget (startParser precedenceTokens [])")
  have "parseAssignmentStatement 6 (startParser precedenceTokens []) \<noteq> None"
    by code_simp
  then obtain node p' where
    b: "parseAssignmentStatement 6 (startParser precedenceTokens []) = Some (node, p')"
    by auto
  from assignment_target_always_declared [of "startParser precedenceTokens []" 6 node p'] h t a b
  show ?thesis by auto
qed

section \<open>C10 and C4: relational operators\<close>

lemma relationalNode_cases:
  "relationalNode t = Some opNode \<Longrightarrow> \<exists>k. isRelational k \<and> opNode = newNode k"
  by (auto simp: relationalNode_def isRelational_def split: if_splits)

lemma relationalNode_total:
  "t \<in> relationalOperators \<Longrightarrow> \<exists>k. isRelational k \<and> relationalNode t = Some (newNode k)"
  by (auto simp: relationalNode_def relationalOperators_def isRelational_def)

lemma parseExpression_unfold:
  assumes "parseExpression (Suc n) p = Some (e, p')"
  shows "\<exists>l p1. parseSimpleExpression n p = Some (l, p1) \<and>
           (if ttype (currentToken p1) \<in> relationalOperators
            then \<exists>k r. isRelational k \<and>
                   parseSimpleExpression n (nextToken p1) = Some (r, p') \<and>
                   e = Some (Node k 0 [] None None [l, r])
            else e = l \<and> p' = p1)"
proof -
  from assms obtain l p1 where s: "parseSimpleExpression n p = Some (l, p1)"
    by (auto split: bind_splits)
  show ?thesis
  proof (cases "ttype (currentToken p1) \<in> relationalOperators")
    case False
    with assms s show ?thesis by simp
  next
    case True
    then obtain k where k: "isRelational k"
      "relationalNode (ttype (currentToken p1)) = Some (newNode k :: 'a Node)"
      using relationalNode_total by blast
    with assms s True show ?thesis
      by (auto simp: newNode_def split: bind_splits)
  qed
qed

lemma relationalBinary_leaf [simp]:
  "relationalBinary (fst (parseVariable p))"
  "relationalBinary (fst (parseIntegerConstant p))"
  "relationalBinary (fst (parseRealConstant p))"
  by (simp_all add: parseVariable_def parseIntegerConstant_def parseRealConstant_def Let_def
        newNode_def isRelational_def)

lemma relationalBinary_leafD:
  "parseVariable p = (x, p') \<Longrightarrow> relationalBinary x"
  "parseIntegerConstant p = (x, p') \<Longrightarrow> relationalBinary x"
  "parseRealConstant p = (x, p') \<Longrightarrow> relationalBinary x"
  using relationalBinary_leaf [of p] by simp_all

lemma relationalBinary_adopt2 [simp]:
  "relationalBinary (adopt (adopt (newNode k) l) r) \<longleftrightarrow>
     (case l of None \<Rightarrow> True | Some x \<Rightarrow> relationalBinary x) \<and>
     (case r of None \<Rightarrow> True | Some x \<Rightarrow> relationalBinary x)"
  by (simp add: newNode_def)

lemma expr_binary_aux:
  "(\<forall>(p::'v Parser) e p'. parseExpression n p = Some (e, p') \<longrightarrow> binaryOpt e) \<and>
   (\<forall>(p::'v Parser) e p'. parseSimpleExpression n p = Some (e, p') \<longrightarrow> binaryOpt e) \<and>
   (\<forall>(p::'v Parser) acc e p'.
      simpleExpressionLoop n acc p = Some (e, p') \<longrightarrow> binaryOpt acc \<longrightarrow> binaryOpt e) \<and>
   (\<forall>(p::'v Parser) e p'. parseTerm n p = Some (e, p') \<longrightarrow> binaryOpt e) \<and>
   (\<forall>(p::'v Parser) acc e p'. termLoop n acc p = Some (e, p') \<longrightarrow> binaryOpt acc \<longrightarrow> binaryOpt e) \<and>
   (\<forall>(p::'v Parser) e p'. parseFactor n p = Some (e, p') \<longrightarrow> binaryOpt e)"
proof (induction n)
  case 0
  show ?case by simp
next
  case (Suc n)
  have E: "parseExpression n p = Some (e, p') \<Longrightarrow> binaryOpt e"
    for p :: "'v Parser" and e p' using Suc.IH by blast
  have S: "parseSimpleExpression n p = Some (e, p') \<Longrightarrow> binaryOpt e"
    for p :: "'v Parser" and e p' using Suc.IH by blast
  have SL: "simpleExpressionLoop n acc p = Some (e, p') \<Longrightarrow> binaryOpt acc \<Longrightarrow> binaryOpt e"
    for p :: "'v Parser" and acc e p' using Suc.IH by blast
  have T: "parseTerm n p = Some (e, p') \<Longrightarrow> binaryOpt e"
    for p :: "'v Parser" and e p' using Suc.IH by blast
  have TL: "termLoop n acc p = Some (e, p') \<Longrightarrow> binaryOpt acc \<Longrightarrow> binaryOpt e"
    for p :: "'v Parser" and acc e p' using Suc.IH by blast
  have F: "parseFactor n p = Some (e, p') \<Longrightarrow> binaryOpt e"
    for p :: "'v Parser" and e p' using Suc.IH by blast
  have 1: "parseExpression (Suc n) p = Some (e, p') \<Longrightarrow> binaryOpt e"
    for p :: "'v Parser" and e p'
    by (drule parseExpression_unfold)
       (auto simp: binaryOpt_def split: if_splits dest!: S)
  have 2: "parseSimpleExpression (Suc n) p = Some (e, p') \<Longrightarrow> binaryOpt e"
    for p :: "'v Parser" and e p'
    by (auto split: bind_splits dest!: T intro: SL)
  have 3: "simpleExpressionLoop (Suc n) acc p = Some (e, p') \<Longrightarrow> binaryOpt acc \<Longrightarrow> binaryOpt e"
    for p :: "'v Parser" and acc e p'
  proof (cases "ttype (currentToken p) \<in> simpleExpressionOperators")
    case False
    assume "simpleExpressionLoop (Suc n) acc p = Some (e, p')" "binaryOpt acc"
    with False show ?thesis by simp
  next
    case True
    assume a: "simpleExpressionLoop (Suc n) acc p = Some (e, p')" and pa: "binaryOpt acc"
    let ?k = "if ttype (currentToken p) = PLUS then ADD else SUBTRACT"
    from a True obtain t p1 where t: "parseTerm n (nextToken p) = Some (t, p1)"
      and l: "simpleExpressionLoop n (Some (adopt (adopt (newNode ?k) acc) t)) p1 = Some (e, p')"
      by (auto split: bind_splits if_splits)
    have "binaryOpt (Some (adopt (adopt (newNode ?k) acc) t))"
      using pa T [OF t] by (simp add: binaryOpt_def)
    with SL [OF l] show ?thesis by blast
  qed
  have 4: "parseTerm (Suc n) p = Some (e, p') \<Longrightarrow> binaryOpt e"
    for p :: "'v Parser" and e p'
    by (auto split: bind_splits dest!: F intro: TL)
  have 5: "termLoop (Suc n) acc p = Some (e, p') \<Longrightarrow> binaryOpt acc \<Longrightarrow> binaryOpt e"
    for p :: "'v Parser" and acc e p'
  proof (cases "ttype (currentToken p) \<in> termOperators")
    case False
    assume "termLoop (Suc n) acc p = Some (e, p')" "binaryOpt acc"
    with False show ?thesis by simp
  next
    case True
    assume a: "termLoop (Suc n) acc p = Some (e, p')" and pa: "binaryOpt acc"
    let ?k = "if ttype (currentToken p) = STAR then MULTIPLY else DIVIDE"
    from a True obtain t p1 where t: "parseFactor n (nextToken p) = Some (t, p1)"
      and l: "termLoop n (Some (adopt (adopt (newNode ?k) acc) t)) p1 = Some (e, p')"
      by (auto split: bind_splits if_splits)
    have "binaryOpt (Some (adopt (adopt (newNode ?k) acc) t))"
      using pa F [OF t] by (simp add: binaryOpt_def)
    with TL [OF l] show ?thesis by blast
  qed
  have 6: "parseFactor (Suc n) p = Some (e, p') \<Longrightarrow> binaryOpt e"
    for p :: "'v Parser" and e p'
    by (auto split: bind_splits if_splits prod.splits dest!: E simp: binaryOpt_def
          dest: relationalBinary_leafD)
  show ?case using 1 2 3 4 5 6 by blast
qed

lemma noLParen_nextToken: "noLParen p \<Longrightarrow> noLParen (nextToken p)"
  by (auto simp: noLParen_def nextToken_def eofToken_def split: list.splits)

lemma noLParen_skipToFollower: "noLParen p \<Longrightarrow> noLParen (skipToFollower p)"
  by (induction p rule: skipToFollower.induct)
     (subst skipToFollower.simps, simp add: noLParen_nextToken)

lemma noLParen_syntaxError: "noLParen p \<Longrightarrow> noLParen (syntaxError m p)"
  unfolding syntaxError_def by (rule noLParen_skipToFollower) (simp add: noLParen_def)

lemma noLParen_parseVariable: "noLParen p \<Longrightarrow> noLParen (snd (parseVariable p))"
  by (auto simp: parseVariable_def Let_def semanticError_def intro!: noLParen_nextToken)
     (simp_all add: noLParen_def)

lemma noRelational_leaf [simp]:
  "noRelational (fst (parseVariable p))"
  "noRelational (fst (parseIntegerConstant p))"
  "noRelational (fst (parseRealConstant p))"
  by (simp_all add: parseVariable_def parseIntegerConstant_def parseRealConstant_def Let_def
        newNode_def isRelational_def)

lemma plainOpt_arith:
  "k \<in> {ADD, SUBTRACT, MULTIPLY, DIVIDE} \<Longrightarrow> plainOpt l \<Longrightarrow> plainOpt r \<Longrightarrow>
   plainOpt (Some (adopt (adopt (newNode k) l) r))"
  by (auto simp: plainOpt_def newNode_def isRelational_def)

lemma noRelational_children:
  "noRelational x \<Longrightarrow> list_all plainOpt (children x)"
  by (cases x) (simp add: plainOpt_def [abs_def])

lemma expr_plain_aux:
  "(\<forall>(p::'v Parser) e p'. parseSimpleExpression n p = Some (e, p') \<longrightarrow> noLParen p \<longrightarrow>
       noLParen p' \<and> plainOpt e) \<and>
   (\<forall>(p::'v Parser) acc e p'. simpleExpressionLoop n acc p = Some (e, p') \<longrightarrow> noLParen p \<longrightarrow>
       plainOpt acc \<longrightarrow> noLParen p' \<and> plainOpt e) \<and>
   (\<forall>(p::'v Parser) e p'. parseTerm n p = Some (e, p') \<longrightarrow> noLParen p \<longrightarrow>
       noLParen p' \<and> plainOpt e) \<and>
   (\<forall>(p::'v Parser) acc e p'. termLoop n acc p = Some (e, p') \<longrightarrow> noLParen p \<longrightarrow>
       plainOpt acc \<longrightarrow> noLParen p' \<and> plainOpt e) \<and>
   (\<forall>(p::'v Parser) e p'. parseFactor n p = Some (e, p') \<longrightarrow> noLParen p \<longrightarrow>
       noLParen p' \<and> plainOpt e)"
proof (induction n)
  case 0
  show ?case by simp
next
  case (Suc n)
  have SL: "simpleExpressionLoop n acc p = Some (e, p') \<Longrightarrow> noLParen p \<Longrightarrow> plainOpt acc \<Longrightarrow>
            noLParen p' \<and> plainOpt e"
    for p :: "'v Parser" and acc e p' using Suc.IH by blast
  have T: "parseTerm n p = Some (e, p') \<Longrightarrow> noLParen p \<Longrightarrow> noLParen p' \<and> plainOpt e"
    for p :: "'v Parser" and e p' using Suc.IH by blast
  have TL: "termLoop n acc p = Some (e, p') \<Longrightarrow> noLParen p \<Longrightarrow> plainOpt acc \<Longrightarrow>
            noLParen p' \<and> plainOpt e"
    for p :: "'v Parser" and acc e p' using Suc.IH by blast
  have F: "parseFactor n p = Some (e, p') \<Longrightarrow> noLParen p \<Longrightarrow> noLParen p' \<and> plainOpt e"
    for p :: "'v Parser" and e p' using Suc.IH by blast
  have 2: "parseSimpleExpression (Suc n) p = Some (e, p') \<Longrightarrow> noLParen p \<Longrightarrow>
           noLParen p' \<and> plainOpt e"
    for p :: "'v Parser" and e p'
  proof -
    assume a: "parseSimpleExpression (Suc n) p = Some (e, p')" and np: "noLParen p"
    from a obtain t p1 where t: "parseTerm n p = Some (t, p1)"
      and l: "simpleExpressionLoop n t p1 = Some (e, p')"
      by (auto split: bind_splits)
    from T [OF t np] SL [OF l] show ?thesis by blast
  qed
  have 3: "simpleExpressionLoop (Suc n) acc p = Some (e, p') \<Longrightarrow> noLParen p \<Longrightarrow>
           plainOpt acc \<Longrightarrow> noLParen p' \<and> plainOpt e"
    for p :: "'v Parser" and acc e p'
  proof (cases "ttype (currentToken p) \<in> simpleExpressionOperators")
    case False
    assume "simpleExpressionLoop (Suc n) acc p = Some (e, p')" "noLParen p" "plainOpt acc"
    with False show ?thesis by simp
  next
    case True
    assume a: "simpleExpressionLoop (Suc n) acc p = Some (e, p')" and np: "noLParen p"
      and pa: "plainOpt acc"
    let ?k = "if ttype (currentToken p) = PLUS then ADD else SUBTRACT"
    from a True obtain t p1 where t: "parseTerm n (nextToken p) = Some (t, p1)"
      and l: "simpleExpressionLoop n (Some (adopt (adopt (newNode ?k) acc) t)) p1 = Some (e, p')"
      by (auto split: bind_splits if_splits)
    from T [OF t noLParen_nextToken [OF np]] have p1: "noLParen p1" "plainOpt t" by auto
    have "plainOpt (Some (adopt (adopt (newNode ?k) acc) t))"
      using pa p1(2) by (intro plainOpt_arith) auto
    with SL [OF l p1(1)] show ?thesis by blast
  qed
  have 4: "parseTerm (Suc n) p = Some (e, p') \<Longrightarrow> noLParen p \<Longrightarrow> noLParen p' \<and> plainOpt e"
    for p :: "'v Parser" and e p'
  proof -
    assume a: "parseTerm (Suc n) p = Some (e, p')" and np: "noLParen p"
    from a obtain t p1 where t: "parseFactor n p = Some (t, p1)"
      and l: "termLoop n t p1 = Some (e, p')"
      by (auto split: bind_splits)
    from F [OF t np] TL [OF l] show ?thesis by blast
  qed
  have 5: "termLoop (Suc n) acc p = Some (e, p') \<Longrightarrow> noLParen p \<Longrightarrow>
           plainOpt acc \<Longrightarrow> noLParen p' \<and> plainOpt e"
    for p :: "'v Parser" and acc e p'
  proof (cases "ttype (currentToken p) \<in> termOperators")
    case False
    assume "termLoop (Suc n) acc p = Some (e, p')" "noLParen p" "plainOpt acc"
    with False show ?thesis by simp
  next
    case True
    assume a: "termLoop (Suc n) acc p = Some (e, p')" and np: "noLParen p"
      and pa: "plainOpt acc"
    let ?k = "if ttype (currentToken p) = STAR then MULTIPLY else DIVIDE"
    from a True obtain t p1 where t: "parseFactor n (nextToken p) = Some (t, p1)"
      and l: "termLoop n (Some (adopt (adopt (newNode ?k) acc) t)) p1 = Some (e, p')"
      by (auto split: bind_splits if_splits)
    from F [OF t noLParen_nextToken [OF np]] have p1: "noLParen p1" "plainOpt t" by auto
    have "plainOpt (Some (adopt (adopt (newNode ?k) acc) t))"
      using pa p1(2) by (intro plainOpt_arith) auto
    with TL [OF l p1(1)] show ?thesis by blast
  qed
  have 6: "parseFactor (Suc n) p = Some (e, p') \<Longrightarrow> noLParen p \<Longrightarrow> noLParen p' \<and> plainOpt e"
    for p :: "'v Parser" and e p'
  proof -
    assume a: "parseFactor (Suc n) p = Some (e, p')" and np: "noLParen p"
    have nl: "ttype (currentToken p) \<noteq> LPAREN" using np by (simp add: noLParen_def)
    have v: "noLParen (snd (parseVariable p))" by (rule noLParen_parseVariable [OF np])
    have n: "noLParen (nextToken p)" by (rule noLParen_nextToken [OF np])
    have s: "noLParen (syntaxError ''Unexpected token'' p)" by (rule noLParen_syntaxError [OF np])
    from a nl v n s show ?thesis
      by (auto simp: plainOpt_def parseIntegerConstant_def parseRealConstant_def newNode_def
            isRelational_def split: if_splits prod.splits)
         (use noRelational_leaf(1) [of p] in auto)
  qed
  show ?case using 2 3 4 5 6 by blast
qed

text \<open>
  C10. Every token kind of the relational-operator set is one of the six kinds that
  \<^verbatim>\<open>parseExpression\<close> maps to a node, so the null fallback is never taken. In every
  tree that \<^verbatim>\<open>parseExpression\<close> returns, each relational node has exactly two children;
  when the token after the first simple expression is relational, the node returned
  has that simple expression as its first child and the second one as its second.
\<close>

theorem relational_fallback_unreachable:
  "(t \<in> relationalOperators \<longrightarrow>
      (\<exists>k. isRelational k \<and> relationalNode t = Some (newNode k :: 'v Node))) \<and>
   (parseExpression n (p :: 'v Parser) = Some (Some e, p') \<longrightarrow> relationalBinary e) \<and>
   (parseExpression (Suc n) p = Some (r, p') \<and> parseSimpleExpression n p = Some (l, p1) \<and>
    ttype (currentToken p1) \<in> relationalOperators \<longrightarrow>
      (\<exists>k rhs. isRelational k \<and> parseSimpleExpression n (nextToken p1) = Some (rhs, p') \<and>
         r = Some (Node k 0 [] None None [l, rhs])))"
proof (intro conjI impI)
  show "t \<in> relationalOperators \<Longrightarrow>
      \<exists>k. isRelational k \<and> relationalNode t = Some (newNode k :: 'v Node)"
    by (rule relationalNode_total)
  show "parseExpression n p = Some (Some e, p') \<Longrightarrow> relationalBinary e"
    using expr_binary_aux [of n, THEN conjunct1, THEN spec, THEN spec, THEN spec, THEN mp,
        of p "Some e" p']
    by (simp add: binaryOpt_def)
  assume a: "parseExpression (Suc n) p = Some (r, p') \<and>
    parseSimpleExpression n p = Some (l, p1) \<and>
    ttype (currentToken p1) \<in> relationalOperators"
  from parseExpression_unfold [of n p r p'] a
  show "\<exists>k rhs. isRelational k \<and> parseSimpleExpression n (nextToken p1) = Some (rhs, p') \<and>
         r = Some (Node k 0 [] None None [l, rhs])"
    by (auto simp del: parseExpression.simps)
qed

theorem relational_fallback_witness:
  "EQUALS \<in> relationalOperators \<and>
   relationalNode EQUALS = Some (newNode EQ :: int Node) \<and>
   (\<exists>e p' l p1.
      parseExpression (Suc 3)
        (startParser chainedComparisonTokens
           [SymtabEntry ''a'', SymtabEntry ''b'', SymtabEntry ''c'']) = Some (Some e, p') \<and>
      parseSimpleExpression 3
        (startParser chainedComparisonTokens
           [SymtabEntry ''a'', SymtabEntry ''b'', SymtabEntry ''c'']) = Some (l, p1) \<and>
      ttype (currentToken p1) \<in> relationalOperators \<and>
      isRelational (ntype e) \<and> relationalBinary e \<and> length (children e) = 2)"
proof -
  let ?S = "startParser chainedComparisonTokens
              [SymtabEntry ''a'', SymtabEntry ''b'', SymtabEntry ''c'']"
  have h1: "EQUALS \<in> relationalOperators" by (simp add: relationalOperators_def)
  have "parseExpression (Suc 3) ?S \<noteq> None" by code_simp
  then obtain r p' where h2: "parseExpression (Suc 3) ?S = Some (r, p')" by auto
  have "parseSimpleExpression 3 ?S \<noteq> None" by code_simp
  then obtain l p1 where h3: "parseSimpleExpression 3 ?S = Some (l, p1)" by auto
  have "ttype (currentToken (snd (the (parseSimpleExpression 3 ?S)))) \<in> relationalOperators"
    by code_simp
  then have h4: "ttype (currentToken p1) \<in> relationalOperators" using h3 by simp
  note inst = relational_fallback_unreachable [where ?'v = int]
  from inst [of EQUALS 3 ?S _ p' r l p1, THEN conjunct2, THEN conjunct2, rule_format]
    h2 h3 h4
  obtain k rhs where k: "isRelational k" "r = Some (Node k 0 [] None None [l, rhs])"
    by blast
  have b: "relationalBinary (Node k 0 [] None None [l, rhs])"
    using inst [of EQUALS "Suc 3" ?S "Node k 0 [] None None [l, rhs]" p' r l p1,
      THEN conjunct2, THEN conjunct1] h2 k
    by (simp del: parseExpression.simps relationalBinary.simps)
  have e: "relationalNode EQUALS = Some (newNode EQ :: int Node)"
    by (simp add: relationalNode_def)
  show ?thesis using h1 h2 h3 h4 k b e
    by (intro conjI exI [of _ "Node k 0 [] None None [l, rhs]"] exI [of _ p'] exI [of _ l]
          exI [of _ p1]) simp_all
qed

text \<open>
  C4. One call of \<^verbatim>\<open>parseExpression\<close> is one simple expression, then, if the next token
  is relational, that one operator and one more simple expression, and it returns
  without looking at the token that follows. Without parentheses in the input (each
  pair is a call of its own), no child of the node returned contains a relational node.
  On \<^verbatim>\<open>a = b = c\<close> the call answers EQ(a, b) and stops at the second \<^verbatim>\<open>=\<close>, which it
  neither consumes nor reports: the error count stays 0 and nothing is printed.
\<close>

theorem one_comparison_per_expression:
  "(parseExpression (Suc n) p = Some (e, p') \<longrightarrow>
      (\<exists>l p1. parseSimpleExpression n p = Some (l, p1) \<and>
         (if ttype (currentToken p1) \<in> relationalOperators
          then \<exists>k r. isRelational k \<and>
                 parseSimpleExpression n (nextToken p1) = Some (r, p') \<and>
                 e = Some (Node k 0 [] None None [l, r])
          else e = l \<and> p' = p1))) \<and>
   (noLParen p \<and> parseExpression n p = Some (Some x, p') \<longrightarrow>
      list_all (\<lambda>c. case c of None \<Rightarrow> True | Some k \<Rightarrow> noRelational k) (children x)) \<and>
   (4 \<le> m \<longrightarrow>
      parseExpression m
        (startParser chainedComparisonTokens
           [SymtabEntry ''a'', SymtabEntry ''b'', SymtabEntry ''c'']) =
        Some (Some (Node EQ 0 [] None None
                [Some (Node VARIABLE 0 ''a'' (Some (SymtabEntry ''a'')) None []),
                 Some (Node VARIABLE 0 ''b'' (Some (SymtabEntry ''b'')) None [])]),
              \<lparr>currentToken = tok EQUALS ''='', scanner = [ident ''c''],
               symtab = [SymtabEntry ''a'', SymtabEntry ''b'', SymtabEntry ''c''],
               lineNumber = 1, errorCount = 0, printed = []\<rparr>))"
proof (intro conjI impI)
  show "parseExpression (Suc n) p = Some (e, p') \<Longrightarrow>
      \<exists>l p1. parseSimpleExpression n p = Some (l, p1) \<and>
         (if ttype (currentToken p1) \<in> relationalOperators
          then \<exists>k r. isRelational k \<and>
                 parseSimpleExpression n (nextToken p1) = Some (r, p') \<and>
                 e = Some (Node k 0 [] None None [l, r])
          else e = l \<and> p' = p1)"
    by (rule parseExpression_unfold)
next
  assume a: "noLParen p \<and> parseExpression n p = Some (Some x, p')"
  then obtain n' where n: "n = Suc n'" by (cases n) auto
  have S: "parseSimpleExpression n' q = Some (r, q') \<Longrightarrow> noLParen q \<Longrightarrow>
           noLParen q' \<and> plainOpt r" for q :: "'a Parser" and r q'
    using expr_plain_aux [of n'] by blast
  from a n obtain l p1 where l: "parseSimpleExpression n' p = Some (l, p1)"
    and c: "if ttype (currentToken p1) \<in> relationalOperators
          then \<exists>k r. isRelational k \<and>
                 parseSimpleExpression n' (nextToken p1) = Some (r, p') \<and>
                 Some x = Some (Node k 0 [] None None [l, r])
          else Some x = l \<and> p' = p1"
    using parseExpression_unfold [of n' p "Some x" p'] by auto
  from S [OF l] a have l': "noLParen p1" "plainOpt l" by auto
  show "list_all (\<lambda>c. case c of None \<Rightarrow> True | Some k \<Rightarrow> noRelational k) (children x)"
  proof (cases "ttype (currentToken p1) \<in> relationalOperators")
    case True
    with c obtain k r where r: "parseSimpleExpression n' (nextToken p1) = Some (r, p')"
      and x: "x = Node k 0 [] None None [l, r]" by auto
    from S [OF r noLParen_nextToken [OF l'(1)]] have "plainOpt r" by simp
    with l'(2) x show ?thesis by (simp add: plainOpt_def)
  next
    case False
    with c have "l = Some x" by simp
    with l'(2) have "noRelational x" by (simp add: plainOpt_def)
    from noRelational_children [OF this] show ?thesis by (simp add: plainOpt_def [abs_def])
  qed
next
  assume le: "4 \<le> m"
  have "parseExpression 4
        (startParser chainedComparisonTokens
           [SymtabEntry ''a'', SymtabEntry ''b'', SymtabEntry ''c'']) =
        Some (Some (Node EQ 0 [] None None
                [Some (Node VARIABLE 0 ''a'' (Some (SymtabEntry ''a'')) None []),
                 Some (Node VARIABLE 0 ''b'' (Some (SymtabEntry ''b'')) None [])]),
              \<lparr>currentToken = tok EQUALS ''='', scanner = [ident ''c''],
               symtab = [SymtabEntry ''a'', SymtabEntry ''b'', SymtabEntry ''c''],
               lineNumber = 1, errorCount = 0, printed = []\<rparr>)"
    by code_simp
  then show "parseExpression m
        (startParser chainedComparisonTokens
           [SymtabEntry ''a'', SymtabEntry ''b'', SymtabEntry ''c'']) =
        Some (Some (Node EQ 0 [] None None
                [Some (Node VARIABLE 0 ''a'' (Some (SymtabEntry ''a'')) None []),
                 Some (Node VARIABLE 0 ''b'' (Some (SymtabEntry ''b'')) None [])]),
              \<lparr>currentToken = tok EQUALS ''='', scanner = [ident ''c''],
               symtab = [SymtabEntry ''a'', SymtabEntry ''b'', SymtabEntry ''c''],
               lineNumber = 1, errorCount = 0, printed = []\<rparr>)"
    using le by (rule parseExpression_fuel)
qed

theorem one_comparison_witness:
  "noLParen (startParser chainedComparisonTokens
      [SymtabEntry ''a'', SymtabEntry ''b'', SymtabEntry ''c'']) \<and>
   (\<exists>x p'. parseExpression (Suc 3)
        (startParser chainedComparisonTokens
           [SymtabEntry ''a'', SymtabEntry ''b'', SymtabEntry ''c'']) = Some (Some x, p') \<and>
      ttype (currentToken p') = EQUALS \<and> errorCount p' = 0 \<and>
      list_all (\<lambda>c. case c of None \<Rightarrow> True | Some k \<Rightarrow> noRelational k) (children x) \<and>
      (\<exists>l p1. parseSimpleExpression 3
        (startParser chainedComparisonTokens
           [SymtabEntry ''a'', SymtabEntry ''b'', SymtabEntry ''c'']) = Some (l, p1)))"
proof -
  let ?S = "startParser chainedComparisonTokens
              [SymtabEntry ''a'', SymtabEntry ''b'', SymtabEntry ''c'']"
  let ?x = "Node EQ 0 [] None None
                [Some (Node VARIABLE 0 ''a'' (Some (SymtabEntry ''a'')) None []),
                 Some (Node VARIABLE 0 ''b'' (Some (SymtabEntry ''b'')) None [])] :: int Node"
  let ?p = "\<lparr>currentToken = tok EQUALS ''='', scanner = [ident ''c''],
               symtab = [SymtabEntry ''a'', SymtabEntry ''b'', SymtabEntry ''c''],
               lineNumber = 1, errorCount = 0, printed = []\<rparr>"
  have h1: "noLParen ?S" by code_simp
  have h2: "(4::nat) \<le> Suc 3" by simp
  note inst = one_comparison_per_expression [of 3 ?S "Some ?x" ?p ?x "Suc 3"]
  from inst [THEN conjunct2, THEN conjunct2, rule_format, OF h2]
  have r: "parseExpression (Suc 3) ?S = Some (Some ?x, ?p)" .
  from one_comparison_per_expression [of "Suc 3" ?S "Some ?x" ?p ?x "Suc 3", THEN conjunct2,
      THEN conjunct1, rule_format, OF conjI [OF h1 r]]
  have c: "list_all (\<lambda>c. case c of None \<Rightarrow> True | Some k \<Rightarrow> noRelational k) (children ?x)" .
  from inst [THEN conjunct1, rule_format, OF r]
  obtain l p1 where s: "parseSimpleExpression 3 ?S = Some (l, p1)" by blast
  show ?thesis using h1 r c s
    by (intro conjI exI [of _ ?x] exI [of _ ?p] exI [of _ l] exI [of _ p1])
       (simp_all add: tok_def del: parseExpression.simps parseSimpleExpression.simps)
qed

section \<open>C3: operator chains\<close>

lemma nextToken_setTokens [simp]: "nextToken (setTokens (t # ts) p) = setTokens ts p"
  by (simp add: nextToken_def setTokens_def split: list.splits)

lemma currentToken_setTokens [simp]: "currentToken (setTokens (t # ts) p) = t"
  by (simp add: setTokens_def)

lemma endsChain_term:
  "endsChain termOperators rest \<Longrightarrow> ttype (currentToken (setTokens rest p)) \<notin> termOperators"
  by (cases rest) (simp_all add: endsChain_def setTokens_def eofToken_def termOperators_def)

lemma endsChain_simple:
  "endsChain simpleExpressionOperators rest \<Longrightarrow>
   ttype (currentToken (setTokens rest p)) \<notin> simpleExpressionOperators"
  by (cases rest)
     (simp_all add: endsChain_def setTokens_def eofToken_def simpleExpressionOperators_def)

lemma parseFactor_literal:
  "ttype f = INTEGER \<Longrightarrow>
   parseFactor (Suc n) (setTokens (f # ts) p) = Some (Some (literalNode f), setTokens ts p)"
  by (simp add: parseIntegerConstant_literal)

lemma termLoop_fuel:
  "termLoop n acc p = Some r \<Longrightarrow> n \<le> m \<Longrightarrow> termLoop m acc p = Some r"
  by (drule expr_fuel [of n m, THEN conjunct2, THEN conjunct2, THEN conjunct2, THEN conjunct2,
        THEN conjunct1, THEN spec, THEN spec, THEN spec, THEN mp, rotated])

lemma simpleExpressionLoop_fuel:
  "simpleExpressionLoop n acc p = Some r \<Longrightarrow> n \<le> m \<Longrightarrow> simpleExpressionLoop m acc p = Some r"
  by (drule expr_fuel [of n m, THEN conjunct2, THEN conjunct2, THEN conjunct1,
        THEN spec, THEN spec, THEN spec, THEN mp, rotated])

lemma parseTerm_fuel:
  "parseTerm n p = Some r \<Longrightarrow> n \<le> m \<Longrightarrow> parseTerm m p = Some r"
  by (drule expr_fuel [of n m, THEN conjunct2, THEN conjunct2, THEN conjunct2, THEN conjunct1,
        THEN spec, THEN spec, THEN mp, rotated])

lemma termLoop_step:
  "ttype (currentToken p) \<in> termOperators \<Longrightarrow> parseFactor n (nextToken p) = Some (factor, p1) \<Longrightarrow>
   termLoop (Suc n) acc p =
     termLoop n (Some (adopt (adopt (newNode (if ttype (currentToken p) = STAR then MULTIPLY
                                               else DIVIDE)) acc) factor)) p1"
  by (simp add: Let_def)

lemma termLoop_exit:
  "ttype (currentToken p) \<notin> termOperators \<Longrightarrow> termLoop (Suc n) acc p = Some (acc, p)"
  by simp

lemma termLoop_chain:
  assumes "list_all (\<lambda>(opTok, f). ttype opTok \<in> termOperators \<and> ttype f = INTEGER) ops"
    and "endsChain termOperators rest"
  shows "\<exists>n. termLoop n acc (setTokens (concat (map (\<lambda>(opTok, f). [opTok, f]) ops) @ rest) p) =
           Some (foldl (\<lambda>acc (opTok, f).
                    binaryNode (if ttype opTok = STAR then MULTIPLY else DIVIDE) acc
                      (Some (literalNode f))) acc ops,
                 setTokens rest p)"
  using assms
proof (induction ops arbitrary: acc)
  case Nil
  have "termLoop (Suc 0) acc (setTokens rest p) = Some (acc, setTokens rest p)"
    by (rule termLoop_exit [OF endsChain_term [OF Nil.prems(2)]])
  then show ?case by (simp del: termLoop.simps) (rule exI)
next
  case (Cons a ops)
  obtain opTok f where a: "a = (opTok, f)" by (cases a)
  let ?more = "concat (map (\<lambda>(opTok, f). [opTok, f]) ops) @ rest"
  let ?k = "if ttype opTok = STAR then MULTIPLY else DIVIDE"
  let ?acc = "binaryNode ?k acc (Some (literalNode f))"
  from Cons.prems a have o: "ttype opTok \<in> termOperators" and f: "ttype f = INTEGER"
    and ops: "list_all (\<lambda>(opTok, f). ttype opTok \<in> termOperators \<and> ttype f = INTEGER) ops"
    by auto
  from Cons.IH [OF ops Cons.prems(2), of ?acc] obtain n where
    n: "termLoop n ?acc (setTokens ?more p) =
          Some (foldl (\<lambda>acc (opTok, f).
                    binaryNode (if ttype opTok = STAR then MULTIPLY else DIVIDE) acc
                      (Some (literalNode f))) ?acc ops, setTokens rest p)"
    by blast
  have n': "termLoop (Suc n) ?acc (setTokens ?more p) =
          Some (foldl (\<lambda>acc (opTok, f).
                    binaryNode (if ttype opTok = STAR then MULTIPLY else DIVIDE) acc
                      (Some (literalNode f))) ?acc ops, setTokens rest p)"
    by (rule termLoop_fuel [OF n]) simp
  have b: "Some (adopt (adopt (newNode ?k) acc) (Some (literalNode f))) = ?acc"
    by (simp add: binaryNode_def newNode_def)
  have "termLoop (Suc (Suc n)) acc (setTokens (opTok # f # ?more) p) =
          termLoop (Suc n)
            (Some (adopt (adopt (newNode (if ttype (currentToken (setTokens (opTok # f # ?more) p))
                = STAR then MULTIPLY else DIVIDE)) acc) (Some (literalNode f))))
            (setTokens ?more p)"
  proof (rule termLoop_step)
    show "ttype (currentToken (setTokens (opTok # f # ?more) p)) \<in> termOperators"
      using o by simp
    show "parseFactor (Suc n) (nextToken (setTokens (opTok # f # ?more) p)) =
            Some (Some (literalNode f), setTokens ?more p)"
      unfolding nextToken_setTokens by (rule parseFactor_literal [OF f])
  qed
  then have "termLoop (Suc (Suc n)) acc (setTokens (opTok # f # ?more) p) =
          termLoop (Suc n) ?acc (setTokens ?more p)"
    by (simp only: currentToken_setTokens b)
  with n' a show ?case by (intro exI [of _ "Suc (Suc n)"]) (simp del: termLoop.simps)
qed

lemma parseTerm_chain:
  assumes "termChainOk c" and "endsChain termOperators rest"
  shows "\<exists>n. parseTerm n (setTokens (termTokens c @ rest) p) = Some (termTree c, setTokens rest p)"
proof -
  obtain f ops where c: "c = (f, ops)" by (cases c)
  let ?more = "concat (map (\<lambda>(opTok, f). [opTok, f]) ops) @ rest"
  from assms c have f: "ttype f = INTEGER"
    and ops: "list_all (\<lambda>(opTok, f). ttype opTok \<in> termOperators \<and> ttype f = INTEGER) ops"
    by (simp_all add: termChainOk_def)
  from termLoop_chain [OF ops assms(2), of "Some (literalNode f)" p] obtain n where
    n: "termLoop n (Some (literalNode f)) (setTokens ?more p) = Some (termTree c, setTokens rest p)"
    unfolding termTree_def c by auto
  have n': "termLoop (Suc n) (Some (literalNode f)) (setTokens ?more p) =
              Some (termTree c, setTokens rest p)"
    by (rule termLoop_fuel [OF n]) simp
  have "parseTerm (Suc (Suc n)) (setTokens (f # ?more) p) =
          termLoop (Suc n) (Some (literalNode f)) (setTokens ?more p)"
    using parseFactor_literal [OF f, of n ?more p]
    by (simp del: parseFactor.simps termLoop.simps)
  with n' show ?thesis unfolding c termTokens_def
    by (intro exI [of _ "Suc (Suc n)"]) (simp del: parseTerm.simps termLoop.simps)
qed

lemma simpleExpressionLoop_step:
  "ttype (currentToken p) \<in> simpleExpressionOperators \<Longrightarrow>
   parseTerm n (nextToken p) = Some (t, p1) \<Longrightarrow>
   simpleExpressionLoop (Suc n) acc p =
     simpleExpressionLoop n
       (Some (adopt (adopt (newNode (if ttype (currentToken p) = PLUS then ADD else SUBTRACT))
                       acc) t)) p1"
  by (simp add: Let_def)

lemma simpleExpressionLoop_exit:
  "ttype (currentToken p) \<notin> simpleExpressionOperators \<Longrightarrow>
   simpleExpressionLoop (Suc n) acc p = Some (acc, p)"
  by simp

lemma endsChain_union:
  "endsChain (a \<union> b) rest \<Longrightarrow> endsChain a rest \<and> endsChain b rest"
  by (cases rest) (simp_all add: endsChain_def)

lemma endsChain_next_term:
  assumes "list_all (\<lambda>(opTok, t). ttype opTok \<in> simpleExpressionOperators \<and> termChainOk t) ts"
    and "endsChain (termOperators \<union> simpleExpressionOperators) rest"
  shows "endsChain termOperators (concat (map (\<lambda>(opTok, t). opTok # termTokens t) ts) @ rest)"
proof (cases ts)
  case Nil
  with endsChain_union [OF assms(2)] show ?thesis by simp
next
  case (Cons a ts')
  obtain x y where a: "a = (x, y)" by (cases a)
  from assms(1) Cons a have "ttype x \<in> simpleExpressionOperators" by simp
  then have "ttype x \<notin> termOperators"
    by (auto simp: simpleExpressionOperators_def termOperators_def)
  then show ?thesis unfolding Cons a by (simp add: endsChain_def)
qed
lemma simpleExpressionLoop_chain:
  assumes "list_all (\<lambda>(opTok, t). ttype opTok \<in> simpleExpressionOperators \<and> termChainOk t) ts"
    and "endsChain (termOperators \<union> simpleExpressionOperators) rest"
  shows "\<exists>n. simpleExpressionLoop n acc
               (setTokens (concat (map (\<lambda>(opTok, t). opTok # termTokens t) ts) @ rest) p) =
           Some (foldl (\<lambda>acc (opTok, t).
                    binaryNode (if ttype opTok = PLUS then ADD else SUBTRACT) acc (termTree t))
                   acc ts,
                 setTokens rest p)"
  using assms
proof (induction ts arbitrary: acc)
  case Nil
  have "simpleExpressionLoop (Suc 0) acc (setTokens rest p) = Some (acc, setTokens rest p)"
    by (rule simpleExpressionLoop_exit
          [OF endsChain_simple [OF endsChain_union [OF Nil.prems(2), THEN conjunct2]]])
  then show ?case by (simp del: simpleExpressionLoop.simps) (rule exI)
next
  case (Cons a ts)
  obtain opTok t where a: "a = (opTok, t)" by (cases a)
  let ?more = "concat (map (\<lambda>(opTok, t). opTok # termTokens t) ts) @ rest"
  let ?k = "if ttype opTok = PLUS then ADD else SUBTRACT"
  let ?acc = "binaryNode ?k acc (termTree t)"
  from Cons.prems a have o: "ttype opTok \<in> simpleExpressionOperators" and t: "termChainOk t"
    and ts: "list_all (\<lambda>(opTok, t). ttype opTok \<in> simpleExpressionOperators \<and> termChainOk t) ts"
    by auto
  from parseTerm_chain [OF t endsChain_next_term [OF ts Cons.prems(2)], of p] obtain m where
    m: "parseTerm m (setTokens (termTokens t @ ?more) p) = Some (termTree t, setTokens ?more p)"
    by blast
  from Cons.IH [OF ts Cons.prems(2), of ?acc] obtain n where
    n: "simpleExpressionLoop n ?acc (setTokens ?more p) =
          Some (foldl (\<lambda>acc (opTok, t).
                    binaryNode (if ttype opTok = PLUS then ADD else SUBTRACT) acc (termTree t))
                   ?acc ts, setTokens rest p)"
    by blast
  let ?j = "max m n"
  have m': "parseTerm ?j (setTokens (termTokens t @ ?more) p) =
              Some (termTree t, setTokens ?more p)"
    by (rule parseTerm_fuel [OF m]) simp
  have n': "simpleExpressionLoop ?j ?acc (setTokens ?more p) =
          Some (foldl (\<lambda>acc (opTok, t).
                    binaryNode (if ttype opTok = PLUS then ADD else SUBTRACT) acc (termTree t))
                   ?acc ts, setTokens rest p)"
    by (rule simpleExpressionLoop_fuel [OF n]) simp
  have b: "Some (adopt (adopt (newNode ?k) acc) (termTree t)) = ?acc"
    by (simp add: binaryNode_def newNode_def)
  have "simpleExpressionLoop (Suc ?j) acc (setTokens (opTok # termTokens t @ ?more) p) =
          simpleExpressionLoop ?j
            (Some (adopt (adopt (newNode
               (if ttype (currentToken (setTokens (opTok # termTokens t @ ?more) p)) = PLUS
                then ADD else SUBTRACT)) acc) (termTree t)))
            (setTokens ?more p)"
  proof (rule simpleExpressionLoop_step)
    show "ttype (currentToken (setTokens (opTok # termTokens t @ ?more) p))
            \<in> simpleExpressionOperators"
      using o by simp
    show "parseTerm ?j (nextToken (setTokens (opTok # termTokens t @ ?more) p)) =
            Some (termTree t, setTokens ?more p)"
      unfolding nextToken_setTokens by (rule m')
  qed
  then have "simpleExpressionLoop (Suc ?j) acc (setTokens (opTok # termTokens t @ ?more) p) =
          simpleExpressionLoop ?j ?acc (setTokens ?more p)"
    by (simp only: currentToken_setTokens b)
  with n' a show ?case
    by (intro exI [of _ "Suc ?j"]) (simp del: simpleExpressionLoop.simps)
qed

lemma parseSimpleExpression_chain:
  assumes "simpleChainOk c" and "endsChain (termOperators \<union> simpleExpressionOperators) rest"
  shows "\<exists>n. parseSimpleExpression n (setTokens (simpleTokens c @ rest) p) =
           Some (simpleTree c, setTokens rest p)"
proof -
  obtain t ts where c: "c = (t, ts)" by (cases c)
  let ?more = "concat (map (\<lambda>(opTok, t). opTok # termTokens t) ts) @ rest"
  from assms c have t: "termChainOk t"
    and ts: "list_all (\<lambda>(opTok, t). ttype opTok \<in> simpleExpressionOperators \<and> termChainOk t) ts"
    by (simp_all add: simpleChainOk_def)
  from parseTerm_chain [OF t endsChain_next_term [OF ts assms(2)], of p] obtain m where
    m: "parseTerm m (setTokens (termTokens t @ ?more) p) = Some (termTree t, setTokens ?more p)"
    by blast
  from simpleExpressionLoop_chain [OF ts assms(2), of "termTree t" p] obtain n where
    n: "simpleExpressionLoop n (termTree t) (setTokens ?more p) =
          Some (simpleTree c, setTokens rest p)"
    unfolding simpleTree_def c by auto
  let ?j = "max m n"
  have m': "parseTerm ?j (setTokens (termTokens t @ ?more) p) =
              Some (termTree t, setTokens ?more p)"
    by (rule parseTerm_fuel [OF m]) simp
  have n': "simpleExpressionLoop ?j (termTree t) (setTokens ?more p) =
          Some (simpleTree c, setTokens rest p)"
    by (rule simpleExpressionLoop_fuel [OF n]) simp
  have "parseSimpleExpression (Suc ?j) (setTokens (termTokens t @ ?more) p) =
          Some (simpleTree c, setTokens rest p)"
    using m' n' by (simp del: parseTerm.simps simpleExpressionLoop.simps)
  then show ?thesis unfolding c simpleTokens_def
    by (intro exI [of _ "Suc ?j"]) (simp del: parseSimpleExpression.simps)
qed

text \<open>
  C3. Parsing \<^verbatim>\<open>x := 1 + 2 * 3\<close> yields exactly ASSIGN(VARIABLE(x), ADD(INTEGER_CONSTANT(1),
  MULTIPLY(INTEGER_CONSTANT(2), INTEGER_CONSTANT(3)))). More generally, on a chain of
  terms separated by \<^verbatim>\<open>+\<close> and \<^verbatim>\<open>-\<close>, each term a chain of integer literals separated
  by \<^verbatim>\<open>*\<close> and \<^verbatim>\<open>/\<close>, followed by a token that is none of these operators,
  \<^verbatim>\<open>parseSimpleExpression\<close> returns, for every large enough bound, the tree in which each
  term is folded from the left and the terms are then folded from the left, and it stops
  at the token after the chain.
\<close>

theorem precedence_and_left_association:
  "(7 \<le> m \<longrightarrow>
      parseStatement m (startParser precedenceTokens []) =
        Some (Some (Node ASSIGN 1 [] None None
                [Some (Node VARIABLE 0 ''x'' (Some (SymtabEntry ''x'')) None []),
                 Some (Node ADD 0 [] None None
                   [Some (Node INTEGER_CONSTANT 0 [] None (Some 1) []),
                    Some (Node MULTIPLY 0 [] None None
                      [Some (Node INTEGER_CONSTANT 0 [] None (Some 2) []),
                       Some (Node INTEGER_CONSTANT 0 [] None (Some 3) [])])])]),
              \<lparr>currentToken = eofToken, scanner = [], symtab = [SymtabEntry ''x''],
               lineNumber = 1, errorCount = 0, printed = []\<rparr>)) \<and>
   (simpleChainOk c \<and> endsChain (termOperators \<union> simpleExpressionOperators) rest \<longrightarrow>
      (\<exists>k. \<forall>n\<ge>k. parseSimpleExpression n (setTokens (simpleTokens c @ rest) p) =
                     Some (simpleTree c, setTokens rest p)))"
proof (intro conjI impI)
  assume le: "7 \<le> m"
  have "parseStatement 7 (startParser precedenceTokens []) =
        Some (Some (Node ASSIGN 1 [] None None
                [Some (Node VARIABLE 0 ''x'' (Some (SymtabEntry ''x'')) None []),
                 Some (Node ADD 0 [] None None
                   [Some (Node INTEGER_CONSTANT 0 [] None (Some 1) []),
                    Some (Node MULTIPLY 0 [] None None
                      [Some (Node INTEGER_CONSTANT 0 [] None (Some 2) []),
                       Some (Node INTEGER_CONSTANT 0 [] None (Some 3) [])])])]),
              \<lparr>currentToken = eofToken, scanner = [], symtab = [SymtabEntry ''x''],
               lineNumber = 1, errorCount = 0, printed = []\<rparr>)"
    by code_simp
  then show "parseStatement m (startParser precedenceTokens []) =
        Some (Some (Node ASSIGN 1 [] None None
                [Some (Node VARIABLE 0 ''x'' (Some (SymtabEntry ''x'')) None []),
                 Some (Node ADD 0 [] None None
                   [Some (Node INTEGER_CONSTANT 0 [] None (Some 1) []),
                    Some (Node MULTIPLY 0 [] None None
                      [Some (Node INTEGER_CONSTANT 0 [] None (Some 2) []),
                       Some (Node INTEGER_CONSTANT 0 [] None (Some 3) [])])])]),
              \<lparr>currentToken = eofToken, scanner = [], symtab = [SymtabEntry ''x''],
               lineNumber = 1, errorCount = 0, printed = []\<rparr>)"
    using le by (rule parseStatement_fuel)
next
  assume a: "simpleChainOk c \<and> endsChain (termOperators \<union> simpleExpressionOperators) rest"
  from parseSimpleExpression_chain [of c rest p] a obtain k where
    k: "parseSimpleExpression k (setTokens (simpleTokens c @ rest) p) =
          Some (simpleTree c, setTokens rest p)"
    by blast
  show "\<exists>k. \<forall>n\<ge>k. parseSimpleExpression n (setTokens (simpleTokens c @ rest) p) =
                     Some (simpleTree c, setTokens rest p)"
    using parseSimpleExpression_fuel [OF k] by blast
qed

theorem precedence_witness:
  "simpleChainOk subtractionChain \<and>
   endsChain (termOperators \<union> simpleExpressionOperators) ([] :: int Token list) \<and>
   simpleTree subtractionChain =
     Some (Node SUBTRACT 0 [] None None
       [Some (Node SUBTRACT 0 [] None None
          [Some (Node INTEGER_CONSTANT 0 [] None (Some 8) []),
           Some (Node INTEGER_CONSTANT 0 [] None (Some 4) [])]),
        Some (Node MULTIPLY 0 [] None None
          [Some (Node INTEGER_CONSTANT 0 [] None (Some 2) []),
           Some (Node INTEGER_CONSTANT 0 [] None (Some 3) [])])]) \<and>
   (\<exists>k. \<forall>n\<ge>k.
      parseSimpleExpression n (setTokens (simpleTokens subtractionChain @ []) (newParser [] [])) =
        Some (simpleTree subtractionChain, setTokens [] (newParser [] []))) \<and>
   parseStatement 7 (startParser precedenceTokens []) \<noteq> None"
proof -
  have h1: "simpleChainOk subtractionChain" by code_simp
  have h2: "endsChain (termOperators \<union> simpleExpressionOperators) ([] :: int Token list)"
    by (simp add: endsChain_def)
  have h3: "simpleTree subtractionChain =
     Some (Node SUBTRACT 0 [] None None
       [Some (Node SUBTRACT 0 [] None None
          [Some (Node INTEGER_CONSTANT 0 [] None (Some 8) []),
           Some (Node INTEGER_CONSTANT 0 [] None (Some 4) [])]),
        Some (Node MULTIPLY 0 [] None None
          [Some (Node INTEGER_CONSTANT 0 [] None (Some 2) []),
           Some (Node INTEGER_CONSTANT 0 [] None (Some 3) [])])])"
    by code_simp
  have h4: "(7::nat) \<le> 7" by simp
  note inst = precedence_and_left_association
    [of 7 subtractionChain "[]" "newParser [] []"]
  from inst [THEN conjunct2, rule_format, OF conjI [OF h1 h2]]
       inst [THEN conjunct1, rule_format, OF h4] h1 h2 h3
  show ?thesis by (simp del: parseStatement.simps parseSimpleExpression.simps)
qed

section \<open>C2: the two kinds of loop\<close>

lemma parseWriteStatement_ntype: "ntype (fst (parseWriteStatement p)) = NodeType.WRITE"
proof -
  obtain node p1 where a: "parseWriteArguments (newNode NodeType.WRITE) (nextToken p) = (node, p1)"
    by (cases "parseWriteArguments (newNode NodeType.WRITE) (nextToken p)")
  from parseWriteArguments_ntype [OF a] a show ?thesis
    by (simp add: parseWriteStatement_def newNode_def)
qed

lemma parseWritelnStatement_ntype: "ntype (fst (parseWritelnStatement p)) = NodeType.WRITELN"
proof -
  obtain node p1 where a: "parseWriteArguments (newNode NodeType.WRITELN) (nextToken p) = (node, p1)"
    by (cases "parseWriteArguments (newNode NodeType.WRITELN) (nextToken p)")
  from parseWriteArguments_ntype [OF a] a show ?thesis
    by (simp add: parseWritelnStatement_def newNode_def Let_def)
qed

lemma parseAssignmentStatement_ntype:
  "parseAssignmentStatement n p = Some (node, p') \<Longrightarrow> ntype node = ASSIGN"
  by (auto simp: parseAssignmentStatement_def Let_def newNode_def
        split: prod.splits bind_splits)

lemma statementsAdopted_refl: "statementsAdopted node node"
  by (cases node) (simp add: statementsAdopted_def)

lemma statementsAdopted_step:
  "statementsAdopted (adopt node (Some s)) node' \<Longrightarrow> ntype s \<in> statementNodeTypes \<Longrightarrow>
   statementsAdopted node node'"
  by (cases node) (auto simp: statementsAdopted_def)

lemma stmt_kinds_aux:
  "(\<forall>(p::'v Parser) e p'. parseStatement n p = Some (e, p') \<longrightarrow> statementOpt e) \<and>
   (\<forall>(p::'v Parser) s p'. parseCompoundStatement n p = Some (s, p') \<longrightarrow> ntype s = COMPOUND) \<and>
   (\<forall>(p::'v Parser) parent t s p'.
      parseStatementList n parent t p = Some (s, p') \<longrightarrow> statementsAdopted parent s) \<and>
   (\<forall>(p::'v Parser) s p'. parseRepeatStatement n p = Some (s, p') \<longrightarrow> ntype s = LOOP) \<and>
   (\<forall>(p::'v Parser) s p'. parseWhileStatement n p = Some (s, p') \<longrightarrow> ntype s = LOOP)"
proof (induction n)
  case 0
  show ?case by simp
next
  case (Suc n)
  have St: "parseStatement n p = Some (e, p') \<Longrightarrow> statementOpt e"
    for p :: "'v Parser" and e p' using Suc.IH by blast
  have C: "parseCompoundStatement n p = Some (s, p') \<Longrightarrow> ntype s = COMPOUND"
    for p :: "'v Parser" and s p' using Suc.IH by blast
  have L: "parseStatementList n parent t p = Some (s, p') \<Longrightarrow> statementsAdopted parent s"
    for p :: "'v Parser" and parent t s p' using Suc.IH by blast
  have R: "parseRepeatStatement n p = Some (s, p') \<Longrightarrow> ntype s = LOOP"
    for p :: "'v Parser" and s p' using Suc.IH by blast
  have W: "parseWhileStatement n p = Some (s, p') \<Longrightarrow> ntype s = LOOP"
    for p :: "'v Parser" and s p' using Suc.IH by blast
  note A = parseAssignmentStatement_ntype
  have wr: "parseWriteStatement q = (s, q') \<Longrightarrow> ntype s = NodeType.WRITE"
    for q :: "'v Parser" and s q' using parseWriteStatement_ntype [of q] by simp
  have wl: "parseWritelnStatement q = (s, q') \<Longrightarrow> ntype s = NodeType.WRITELN"
    for q :: "'v Parser" and s q' using parseWritelnStatement_ntype [of q] by simp
  have 1: "parseStatement (Suc n) p = Some (e, p') \<Longrightarrow> statementOpt e"
    for p :: "'v Parser" and e p'
    by (rule statement_kind_cases [of "ttype (currentToken p)"];
        auto simp: Let_def statementOpt_def statementNodeTypes_def
          split: bind_splits prod.splits dest!: A C R W wr wl)
  have 2: "parseCompoundStatement (Suc n) p = Some (s, p') \<Longrightarrow> ntype s = COMPOUND"
    for p :: "'v Parser" and s p'
    by (auto simp: Let_def statementsAdopted_def newNode_def
          split: bind_splits if_splits dest!: L)
  have 3: "parseStatementList (Suc n) parent t p = Some (s, p') \<Longrightarrow> statementsAdopted parent s"
    for p :: "'v Parser" and parent t s p'
  proof (cases "ttype (currentToken p) \<noteq> t \<and> ttype (currentToken p) \<noteq> END_OF_FILE")
    case False
    assume "parseStatementList (Suc n) parent t p = Some (s, p')"
    with False show ?thesis by (auto simp: statementsAdopted_refl)
  next
    case True
    assume a: "parseStatementList (Suc n) parent t p = Some (s, p')"
    from a True obtain e p1 p2 where e: "parseStatement n p = Some (e, p1)"
      and l: "parseStatementList n (if e \<noteq> None then adopt parent e else parent) t p2 =
                Some (s, p')"
      by (auto simp: Let_def split: bind_splits)
    show ?thesis
    proof (cases e)
      case None
      with L [OF l] show ?thesis by simp
    next
      case (Some x)
      with St [OF e] have "ntype x \<in> statementNodeTypes" by (simp add: statementOpt_def)
      with L [OF l] Some show ?thesis by (auto intro: statementsAdopted_step)
    qed
  qed
  have 4: "parseRepeatStatement (Suc n) p = Some (s, p') \<Longrightarrow> ntype s = LOOP"
    for p :: "'v Parser" and s p'
    by (auto simp: Let_def statementsAdopted_def newNode_def
          split: bind_splits if_splits dest!: L)
  have 5: "parseWhileStatement (Suc n) p = Some (s, p') \<Longrightarrow> ntype s = LOOP"
    for p :: "'v Parser" and s p'
    by (auto simp: Let_def newNode_def split: bind_splits if_splits)
  show ?case using 1 2 3 4 5 by blast
qed

lemma parseStatementList_adopted:
  "parseStatementList n parent t p = Some (s, p') \<Longrightarrow> statementsAdopted parent s"
  by (rule stmt_kinds_aux [of n, THEN conjunct2, THEN conjunct2, THEN conjunct1,
        THEN spec, THEN spec, THEN spec, THEN spec, THEN spec, THEN mp])

lemma parseStatement_kind:
  "parseStatement n p = Some (e, p') \<Longrightarrow> statementOpt e"
  by (rule stmt_kinds_aux [of n, THEN conjunct1, THEN spec, THEN spec, THEN spec, THEN mp])

lemma parseRepeatStatement_unfold:
  assumes "parseRepeatStatement (Suc k) p = Some (node, p')"
    and "errorCount p' = errorCount p"
  shows "\<exists>loopNode p1 cond.
           parseStatementList k (newNode LOOP) UNTIL (nextToken p) = Some (loopNode, p1) \<and>
           ttype (currentToken p1) = UNTIL \<and>
           parseExpression k (nextToken (p1\<lparr>lineNumber := tlineNumber (currentToken p1)\<rparr>)) =
             Some (Some cond, p') \<and>
           node = adopt loopNode
                    (Some (Node TEST (tlineNumber (currentToken p1)) [] None None [Some cond]))"
proof -
  from assms(1) obtain loopNode p1 where
    l: "parseStatementList k (newNode LOOP) UNTIL (nextToken p) = Some (loopNode, p1)"
    by (auto split: bind_splits)
  have e1: "errorCount p \<le> errorCount p1"
    using parseStatementList_errorCount [OF l] by simp
  show ?thesis
  proof (cases "ttype (currentToken p1) = UNTIL")
    case False
    with assms(1) l have "errorCount p' = errorCount p1 + 1" by auto
    with e1 assms(2) show ?thesis by simp
  next
    case True
    let ?p2 = "p1\<lparr>lineNumber := tlineNumber (currentToken p1)\<rparr>"
    from assms(1) l True obtain e where
      e: "parseExpression k (nextToken ?p2) = Some (e, p')"
      and n: "node = adopt loopNode
                (Some (adopt (setLineNumber (tlineNumber (currentToken p1)) (newNode TEST)) e))"
      by (auto simp: Let_def split: bind_splits)
    from parseExpression_errors [OF e] e1 assms(2) obtain cond where c: "e = Some cond"
      by (cases e) (auto simp: errorsGrow_def)
    show ?thesis using l True e n c by (auto simp: newNode_def)
  qed
qed

lemma parseWhileStatement_unfold:
  assumes "parseWhileStatement (Suc k) p = Some (node, p')"
    and "errorCount p' = errorCount p"
  shows "\<exists>cond p1 stmt.
           parseExpression k (nextToken p) = Some (Some cond, p1) \<and>
           ttype (currentToken p1) = DO \<and>
           parseStatement k (nextToken p1) = Some (stmt, p') \<and>
           node = Node LOOP 0 [] None None
                    [Some (Node TEST 0 [] None None
                       [Some (Node NodeType.NOT 0 [] None None [Some cond])]), stmt]"
proof -
  from assms(1) obtain e p1 where e: "parseExpression k (nextToken p) = Some (e, p1)"
    by (auto split: bind_splits)
  have e1: "errorsGrow (nextToken p) e p1" by (rule parseExpression_errors [OF e])
  show ?thesis
  proof (cases "ttype (currentToken p1) = DO")
    case False
    with assms(1) e have "errorCount p' = errorCount p1 + 1" by (auto simp: Let_def)
    with e1 assms(2) show ?thesis by (simp add: errorsGrow_def)
  next
    case True
    from assms(1) e True obtain stmt where
      s: "parseStatement k (nextToken p1) = Some (stmt, p')"
      and n: "node = adopt (adopt (newNode LOOP)
                 (Some (adopt (newNode TEST) (Some (adopt (newNode NodeType.NOT) e))))) stmt"
      by (auto simp: Let_def split: bind_splits)
    have "errorCount p1 \<le> errorCount p'" using parseStatement_errorCount [OF s] by simp
    with e1 assms(2) obtain cond where c: "e = Some cond"
      by (cases e) (auto simp: errorsGrow_def)
    show ?thesis using e True s n c by (auto simp: newNode_def)
  qed
qed

text \<open>
  \<^verbatim>\<open>parseStatement\<close> answers the null pointer without an error for the empty statement
  only.
\<close>

lemma parseStatement_null:
  "parseStatement (Suc k) p = Some (None, p') \<Longrightarrow>
   ttype (currentToken p) = SEMICOLON \<or> errorCount p < errorCount p'"
  by (rule statement_kind_cases [of "ttype (currentToken p)"];
      auto simp: Let_def split: bind_splits prod.splits)

lemma parseWhileStatement_fuel:
  "parseWhileStatement n p = Some r \<Longrightarrow> n \<le> m \<Longrightarrow> parseWhileStatement m p = Some r"
  by (drule stmt_fuel [of n m, THEN conjunct2, THEN conjunct2, THEN conjunct2, THEN conjunct2,
        THEN spec, THEN spec, THEN mp, rotated])

text \<open>
  What holds of the two loop productions. A REPEAT statement parsed with the error count
  unchanged yields a LOOP node whose children are the statement nodes that the statement
  list adopted, then, last, a TEST node with the until-expression as its only child. A
  WHILE statement parsed with the error count unchanged yields a LOOP node with exactly
  two children: first TEST(NOT(condition)); then the node of the body statement, or the
  null pointer, and this exactly when the body is the empty statement (the token after
  \<^verbatim>\<open>DO\<close> is a semicolon). In both cases the node is otherwise a plain LOOP node, with
  no field that tells the two kinds apart.
\<close>

lemma loop_productions_without_error:
  "(parseRepeatStatement n p = Some (node, p') \<and> errorCount p' = errorCount p \<longrightarrow>
      (\<exists>body l cond.
         node = Node LOOP 0 [] None None (body @ [Some (Node TEST l [] None None [Some cond])]) \<and>
         list_all (\<lambda>c. case c of None \<Rightarrow> False | Some s \<Rightarrow> ntype s \<in> statementNodeTypes) body \<and>
         (\<exists>k loopNode p1.
            parseStatementList k (newNode LOOP) UNTIL (nextToken p) = Some (loopNode, p1) \<and>
            children loopNode = body \<and> ttype (currentToken p1) = UNTIL \<and>
            l = tlineNumber (currentToken p1) \<and>
            parseExpression k (nextToken (p1\<lparr>lineNumber := l\<rparr>)) = Some (Some cond, p')))) \<and>
   (parseWhileStatement n p = Some (node, p') \<and> errorCount p' = errorCount p \<longrightarrow>
      (\<exists>cond stmt.
         node = Node LOOP 0 [] None None
                  [Some (Node TEST 0 [] None None
                     [Some (Node NodeType.NOT 0 [] None None [Some cond])]), stmt] \<and>
         (\<exists>k p1.
            parseExpression k (nextToken p) = Some (Some cond, p1) \<and>
            ttype (currentToken p1) = DO \<and>
            parseStatement k (nextToken p1) = Some (stmt, p') \<and>
            (case stmt of
               None \<Rightarrow> ttype (currentToken (nextToken p1)) = SEMICOLON
             | Some s \<Rightarrow> ntype s \<in> statementNodeTypes))))"
proof (intro conjI impI)
  assume a: "parseRepeatStatement n p = Some (node, p') \<and> errorCount p' = errorCount p"
  then obtain k where n: "n = Suc k" by (cases n) auto
  from parseRepeatStatement_unfold [of k p node p'] a n obtain loopNode p1 cond where
    l: "parseStatementList k (newNode LOOP) UNTIL (nextToken p) = Some (loopNode, p1)"
    and u: "ttype (currentToken p1) = UNTIL"
    and e: "parseExpression k (nextToken (p1\<lparr>lineNumber := tlineNumber (currentToken p1)\<rparr>)) =
             Some (Some cond, p')"
    and nd: "node = adopt loopNode
                    (Some (Node TEST (tlineNumber (currentToken p1)) [] None None [Some cond]))"
    by blast
  from parseStatementList_adopted [OF l] obtain body where
    b: "loopNode = Node LOOP 0 [] None None body"
    and k: "list_all (\<lambda>c. case c of None \<Rightarrow> False | Some s \<Rightarrow> ntype s \<in> statementNodeTypes) body"
    by (auto simp: statementsAdopted_def newNode_def)
  show "\<exists>body l cond.
         node = Node LOOP 0 [] None None (body @ [Some (Node TEST l [] None None [Some cond])]) \<and>
         list_all (\<lambda>c. case c of None \<Rightarrow> False | Some s \<Rightarrow> ntype s \<in> statementNodeTypes) body \<and>
         (\<exists>k loopNode p1.
            parseStatementList k (newNode LOOP) UNTIL (nextToken p) = Some (loopNode, p1) \<and>
            children loopNode = body \<and> ttype (currentToken p1) = UNTIL \<and>
            l = tlineNumber (currentToken p1) \<and>
            parseExpression k (nextToken (p1\<lparr>lineNumber := l\<rparr>)) = Some (Some cond, p'))"
    using l u e nd b k
    by (intro exI [of _ body] exI [of _ "tlineNumber (currentToken p1)"] exI [of _ cond]
          conjI exI [of _ k] exI [of _ loopNode] exI [of _ p1]) simp_all
next
  assume a: "parseWhileStatement n p = Some (node, p') \<and> errorCount p' = errorCount p"
  then obtain k where n: "n = Suc k" by (cases n) auto
  from parseWhileStatement_unfold [of k p node p'] a n obtain cond p1 stmt where
    e: "parseExpression k (nextToken p) = Some (Some cond, p1)"
    and d: "ttype (currentToken p1) = DO"
    and s: "parseStatement k (nextToken p1) = Some (stmt, p')"
    and nd: "node = Node LOOP 0 [] None None
                    [Some (Node TEST 0 [] None None
                       [Some (Node NodeType.NOT 0 [] None None [Some cond])]), stmt]"
    by blast
  have e1: "errorCount p \<le> errorCount p1"
    using parseExpression_errors [OF e] by (simp add: errorsGrow_def)
  have e2: "errorCount p1 \<le> errorCount p'"
    using parseStatement_errorCount [OF s] by simp
  have k: "case stmt of
             None \<Rightarrow> ttype (currentToken (nextToken p1)) = SEMICOLON
           | Some s \<Rightarrow> ntype s \<in> statementNodeTypes"
  proof (cases stmt)
    case None
    from s None obtain j where j: "k = Suc j" by (cases k) auto
    from parseStatement_null [of j "nextToken p1" p'] s None j e1 e2 a
    show ?thesis by (simp del: parseStatement.simps)
  next
    case (Some x)
    with parseStatement_kind [OF s] show ?thesis by (simp add: statementOpt_def)
  qed
  show "\<exists>cond stmt.
         node = Node LOOP 0 [] None None
                  [Some (Node TEST 0 [] None None
                     [Some (Node NodeType.NOT 0 [] None None [Some cond])]), stmt] \<and>
         (\<exists>k p1.
            parseExpression k (nextToken p) = Some (Some cond, p1) \<and>
            ttype (currentToken p1) = DO \<and>
            parseStatement k (nextToken p1) = Some (stmt, p') \<and>
            (case stmt of
               None \<Rightarrow> ttype (currentToken (nextToken p1)) = SEMICOLON
             | Some s \<Rightarrow> ntype s \<in> statementNodeTypes))"
    using e d s nd k
    by (intro exI [of _ cond] exI [of _ stmt] conjI exI [of _ k] exI [of _ p1]) simp_all
qed

text \<open>The two examples of the specification are such parses.\<close>

lemma loop_productions_examples:
  "(\<exists>node p' body l cond.
      parseRepeatStatement 8 (startParser repeatTokens [SymtabEntry ''x'']) = Some (node, p') \<and>
      errorCount p' = errorCount (startParser repeatTokens [SymtabEntry ''x'']) \<and>
      node = Node LOOP 0 [] None None (body @ [Some (Node TEST l [] None None [Some cond])])) \<and>
   (\<exists>node p' cond stmt.
      parseWhileStatement 8 (startParser whileTokens [SymtabEntry ''x'']) = Some (node, p') \<and>
      errorCount p' = errorCount (startParser whileTokens [SymtabEntry ''x'']) \<and>
      node = Node LOOP 0 [] None None
               [Some (Node TEST 0 [] None None
                  [Some (Node NodeType.NOT 0 [] None None [Some cond])]), stmt])"
proof -
  let ?R = "startParser repeatTokens [SymtabEntry ''x'']"
  let ?W = "startParser whileTokens [SymtabEntry ''x'']"
  have "parseRepeatStatement 8 ?R \<noteq> None" by code_simp
  then obtain rn rp where r: "parseRepeatStatement 8 ?R = Some (rn, rp)" by auto
  have "errorCount (snd (the (parseRepeatStatement 8 ?R))) = errorCount ?R" by code_simp
  with r have re: "errorCount rp = errorCount ?R" by simp
  have "parseWhileStatement 8 ?W \<noteq> None" by code_simp
  then obtain wn wp where w: "parseWhileStatement 8 ?W = Some (wn, wp)" by auto
  have "errorCount (snd (the (parseWhileStatement 8 ?W))) = errorCount ?W" by code_simp
  with w have we: "errorCount wp = errorCount ?W" by simp
  from loop_productions_without_error [of 8 ?R rn rp, THEN conjunct1, rule_format,
      OF conjI [OF r re]]
  obtain body l cond where
    a: "rn = Node LOOP 0 [] None None (body @ [Some (Node TEST l [] None None [Some cond])])"
    by blast
  from loop_productions_without_error [of 8 ?W wn wp, THEN conjunct2, rule_format,
      OF conjI [OF w we]]
  obtain cond' stmt where
    b: "wn = Node LOOP 0 [] None None
               [Some (Node TEST 0 [] None None
                  [Some (Node NodeType.NOT 0 [] None None [Some cond'])]), stmt]"
    by blast
  show ?thesis using r re a w we b by blast
qed

text \<open>
  C2. The claim has the second child of the LOOP node of a WHILE statement be the body
  statement. On \<^verbatim>\<open>WHILE x < 10 DO ;\<close>, parsed without any error, it is the null pointer:
  \<^verbatim>\<open>parseWhileStatement\<close> adopts what \<^verbatim>\<open>parseStatement\<close> answers for the empty
  statement without the test for null that \<^verbatim>\<open>parseStatementList\<close> makes before it
  adopts.
\<close>

theorem while_empty_body_adopts_null:
  "5 \<le> n \<Longrightarrow>
   parseWhileStatement n (startParser whileEmptyBodyTokens [SymtabEntry ''x'']) =
     Some (Node LOOP 0 [] None None
             [Some (Node TEST 0 [] None None
                [Some (Node NodeType.NOT 0 [] None None
                   [Some (Node LT 0 [] None None
                      [Some (Node VARIABLE 0 ''x'' (Some (SymtabEntry ''x'')) None []),
                       Some (Node INTEGER_CONSTANT 0 [] None (Some 10) [])])])]),
              None],
           \<lparr>currentToken = tok SEMICOLON '';'', scanner = [], symtab = [SymtabEntry ''x''],
            lineNumber = 1, errorCount = 0, printed = []\<rparr>)"
proof -
  assume le: "5 \<le> n"
  have "parseWhileStatement 5 (startParser whileEmptyBodyTokens [SymtabEntry ''x'']) =
     Some (Node LOOP 0 [] None None
             [Some (Node TEST 0 [] None None
                [Some (Node NodeType.NOT 0 [] None None
                   [Some (Node LT 0 [] None None
                      [Some (Node VARIABLE 0 ''x'' (Some (SymtabEntry ''x'')) None []),
                       Some (Node INTEGER_CONSTANT 0 [] None (Some 10) [])])])]),
              None],
           \<lparr>currentToken = tok SEMICOLON '';'', scanner = [], symtab = [SymtabEntry ''x''],
            lineNumber = 1, errorCount = 0, printed = []\<rparr>)"
    by code_simp
  then show ?thesis using le by (rule parseWhileStatement_fuel)
qed

theorem while_empty_body_witness:
  "childKinds (fst (the (parseWhileStatement 6
      (startParser whileEmptyBodyTokens [SymtabEntry ''x''])))) = [Some TEST, None] \<and>
   errorCount (snd (the (parseWhileStatement 6
      (startParser whileEmptyBodyTokens [SymtabEntry ''x''])))) = 0"
proof -
  have "(5::nat) \<le> 6" by simp
  from while_empty_body_adopts_null [OF this]
  show ?thesis by (simp add: childKinds_def)
qed

end
